theory Spec2Isabelle
  imports Main "HOL-Library.AList"
begin

section \<open>Data model\<close>

text \<open>
  JavaScript objects are compared by identity, so every view and model node carries an
  identifier; structural equality of the HOL values then coincides with identity as
  long as identifiers are allocated freshly.
\<close>

type_synonym ident = nat

text \<open>
  Model nodes of the engine: elements (name, attributes, children) and text nodes
  (attributes, data).
\<close>

datatype model_node =
    ModelElement ident string "(string \<times> string) list" "model_node list"
  | ModelText ident "(string \<times> string) list" string

text \<open>
  What a conversion yields (\<open>data.output\<close>, the value of \<open>convertItem\<close>):
  nothing, one model node, or a document fragment (an object of its own) holding a
  sequence of nodes.
\<close>

datatype conv_result = Null | Node model_node | Fragment ident "model_node list"

fun node_id :: "model_node \<Rightarrow> ident" where
  "node_id (ModelElement i _ _ _) = i"
| "node_id (ModelText i _ _) = i"

fun result_id :: "conv_result \<Rightarrow> ident option" where
  "result_id Null = None"
| "result_id (Node n) = Some (node_id n)"
| "result_id (Fragment i _) = Some i"

text \<open>
  An entry of a context chain is a bare name or whatever object a converter pushed
  (\<open>viewFigureToModel\<close> pushes the value of \<open>convertItem\<close>).
\<close>

datatype ctx_entry = CtxName string | CtxItem conv_result

text \<open>
  Exceptions: a \<open>TypeError\<close> of the language (a property read or a method call on
  \<open>null\<close> or \<open>undefined\<close>, a non-object added to a \<open>WeakSet\<close>), and the
  engine's own \<open>CKEditorError\<close>.
\<close>

datatype error = TypeError | CKEditorError

text \<open>
  Context chains are JavaScript arrays, shared by reference and mutated in place with
  \<open>push\<close> and \<open>pop\<close>. They live in a store: \<open>arrays\<close> maps a reference to
  the array's current contents (innermost entry last), \<open>next_ref\<close> is the next unused
  reference.
\<close>

type_synonym aref = nat

record heap =
  arrays :: "aref \<Rightarrow> ctx_entry list"
  next_ref :: aref

definition array_slice :: "aref \<Rightarrow> 'a heap_scheme \<Rightarrow> aref \<times> 'a heap_scheme" where
  "array_slice r h =
     (next_ref h,
      h\<lparr>arrays := (arrays h)(next_ref h := arrays h r), next_ref := Suc (next_ref h)\<rparr>)"

definition array_push :: "aref \<Rightarrow> ctx_entry \<Rightarrow> 'a heap_scheme \<Rightarrow> 'a heap_scheme" where
  "array_push r e h = h\<lparr>arrays := (arrays h)(r := arrays h r @ [e])\<rparr>"

text \<open>\<open>pop\<close> on an empty array leaves it empty (and returns \<open>undefined\<close>).\<close>

definition array_pop :: "aref \<Rightarrow> 'a heap_scheme \<Rightarrow> 'a heap_scheme" where
  "array_pop r h = h\<lparr>arrays := (arrays h)(r := butlast (arrays h r))\<rparr>"

subsection \<open>The schema (host collaborator)\<close>

text \<open>
  The schema is the host's; the converters only call \<open>schema.check(query)\<close> and
  \<open>schema.limits.has(name)\<close>. Both are taken as given. The \<open>attributes\<close> of a query
  are passed as one name by \<open>viewFigureToModel\<close> and as an array by
  \<open>convertHoistableImage\<close>.
\<close>

datatype attr_spec = AttrName string | AttrList "string list"

record schema_query =
  q_name :: string
  q_attributes :: attr_spec
  q_inside :: "ctx_entry list"

record schema =
  check :: "schema_query \<Rightarrow> bool"
  limits :: "string set"

record model_data =
  md_name :: string
  md_attributes :: "string list"

section \<open>Hoist detection: the search for an allowed context\<close>

text \<open>
  \<open>typeof parent === 'string' ? parent : parent.name\<close>: the name of a popped entry.
  Reading \<open>.name\<close> of \<open>null\<close> throws; a text node or a document fragment has no
  \<open>name\<close> property, so the read yields \<open>undefined\<close> (here \<open>None\<close>).
\<close>

fun parentName :: "ctx_entry \<Rightarrow> error + string option" where
  "parentName (CtxName s) = Inr (Some s)"
| "parentName (CtxItem Null) = Inl TypeError"
| "parentName (CtxItem (Node (ModelElement _ n _ _))) = Inr (Some n)"
| "parentName (CtxItem (Node (ModelText _ _ _))) = Inr None"
| "parentName (CtxItem (Fragment _ _)) = Inr None"

text \<open>\<open>schema.limits.has(parentName)\<close>; \<open>undefined\<close> is never a member.\<close>

definition limits_has :: "schema \<Rightarrow> string option \<Rightarrow> bool" where
  "limits_has sch pn = (case pn of None \<Rightarrow> False | Some n \<Rightarrow> n \<in> limits sch)"

text \<open>
  The query object holds a reference to the copied array, so each \<open>schema.check\<close>
  sees the array as it is at that moment.
\<close>

definition schemaQuery :: "model_data \<Rightarrow> ctx_entry list \<Rightarrow> schema_query" where
  "schemaQuery modelData inside =
     \<lparr>q_name = md_name modelData, q_attributes = AttrList (md_attributes modelData),
      q_inside = inside\<rparr>"

text \<open>
  The \<open>while\<close> loop of \<open>_findAllowedContext\<close> on the copied array \<open>c\<close>, followed
  by the final \<open>return context.length ? context : null\<close>.
\<close>

function findAllowedContext_loop ::
  "schema \<Rightarrow> model_data \<Rightarrow> aref \<Rightarrow> 'a heap_scheme \<Rightarrow> (error + aref option) \<times> 'a heap_scheme"
where
  "findAllowedContext_loop sch modelData c h =
     (if arrays h c \<noteq> [] \<and> \<not> check sch (schemaQuery modelData (arrays h c)) then
        (let parent = last (arrays h c);
             h' = array_pop c h
         in case parentName parent of
              Inl e \<Rightarrow> (Inl e, h')
            | Inr pn \<Rightarrow>
                if limits_has sch pn then (Inr None, h')
                else findAllowedContext_loop sch modelData c h')
      else (Inr (if arrays h c \<noteq> [] then Some c else None), h))"
  by pat_completeness auto
termination
  by (relation "measure (\<lambda>(sch, modelData, c, h). length (arrays h c))")
     (auto simp: array_pop_def)

declare findAllowedContext_loop.simps [simp del]

definition findAllowedContext ::
  "model_data \<Rightarrow> aref \<Rightarrow> schema \<Rightarrow> 'a heap_scheme \<Rightarrow> (error + aref option) \<times> 'a heap_scheme"
where
  "findAllowedContext modelData context' sch h =
     (let (c, h1) = array_slice context' h
      in findAllowedContext_loop sch modelData c h1)"


section \<open>View nodes and the consumable tracker\<close>

text \<open>
  A view element has a name, attributes, classes (which the engine keeps apart from the
  other attributes) and children; a view text node has only its data.
\<close>

datatype view_node =
    ViewElement ident string "(string \<times> string) list" "string list" "view_node list"
  | ViewText ident string

fun view_id :: "view_node \<Rightarrow> ident" where
  "view_id (ViewElement i _ _ _ _) = i"
| "view_id (ViewText i _) = i"

text \<open>\<open>node.is( type )\<close> with one argument.\<close>

fun view_is :: "view_node \<Rightarrow> string \<Rightarrow> bool" where
  "view_is (ViewElement _ n _ _ _) ty = (ty = ''element'' \<or> ty = n)"
| "view_is (ViewText _ _) ty = (ty = ''text'')"

text \<open>
  The converters below are registered for element events, so \<open>data.input\<close> is an
  element there; a text node is given no children.
\<close>

fun getChildren :: "view_node \<Rightarrow> view_node list" where
  "getChildren (ViewElement _ _ _ _ cs) = cs"
| "getChildren (ViewText _ _) = []"

fun getAttribute :: "view_node \<Rightarrow> string \<Rightarrow> string option" where
  "getAttribute (ViewElement _ _ at _ _) k = map_of at k"
| "getAttribute (ViewText _ _) k = None"

definition hasAttribute :: "view_node \<Rightarrow> string \<Rightarrow> bool" where
  "hasAttribute v k = (getAttribute v k \<noteq> None)"

text \<open>
  The consumable tracker of a view-to-model pass (host collaborator): the set of markers
  (view node, part) that are still consumable. \<open>test\<close> only reads it.
\<close>

datatype ckey = CName | CAttribute string | CClass string

record conv_state = heap +
  consumable :: "(ident \<times> ckey) set"
  autohoistedImages :: "ident set"
  next_id :: ident

definition consumable_test :: "conv_state \<Rightarrow> view_node \<Rightarrow> ckey list \<Rightarrow> bool" where
  "consumable_test st v ks = list_all (\<lambda>k. (view_id v, k) \<in> consumable st) ks"

definition consumable_consume :: "view_node \<Rightarrow> ckey list \<Rightarrow> conv_state \<Rightarrow> bool \<times> conv_state" where
  "consumable_consume v ks st =
     (if consumable_test st v ks
      then (True, st\<lparr>consumable := consumable st - (\<lambda>k. (view_id v, k)) ` set ks\<rparr>)
      else (False, st))"

text \<open>
  The conversion data handed to a converter: the view node, the context chain (by
  reference) and the output so far.
\<close>

record conv_data =
  d_input :: view_node
  d_context :: aref
  d_output :: conv_result

text \<open>
  The conversion interface of the host: its schema, and \<open>convertItem\<close> and
  \<open>convertChildren\<close>, which dispatch to whatever converters are registered and may
  change the whole state of the pass.
\<close>

record conversion_api =
  api_schema :: schema
  convertItem :: "view_node \<Rightarrow> conv_data \<Rightarrow> conv_state \<Rightarrow> conv_result \<times> conv_state"
  convertChildren :: "view_node \<Rightarrow> conv_data \<Rightarrow> conv_state \<Rightarrow> model_node list \<times> conv_state"

section \<open>The figure converter\<close>

text \<open>
  \<open>modelWriter.insert( position, nodes )\<close> of the engine does more than put the nodes
  in: it normalises them, merging neighbouring text nodes that have the same attributes
  into a new text node, inserts them, and merges again where the inserted nodes touch
  the old ones. New text nodes take their identifiers from the counter that is passed
  along.
\<close>

text \<open>
  \<open>_haveSameAttributes( nodeA, nodeB )\<close>: every attribute of \<open>nodeA\<close> has the same
  value in \<open>nodeB\<close>, and \<open>nodeB\<close> has no further attribute.
\<close>

definition haveSameAttributes ::
  "(string \<times> string) list \<Rightarrow> (string \<times> string) list \<Rightarrow> bool"
where
  "haveSameAttributes a b =
     (list_all (\<lambda>kv. map_of b (fst kv) = Some (snd kv)) a \<and> length b \<le> length a)"

text \<open>
  The merging loop of \<open>normalizeNodes\<close>: a text node that follows a text node with the
  same attributes is replaced, together with it, by
  \<open>new Text( prev.data + node.data, prev.getAttributes() )\<close>, which is then compared
  with the next node.
\<close>

function normalizeNodes :: "model_node list \<Rightarrow> ident \<Rightarrow> model_node list \<times> ident" where
  "normalizeNodes [] f = ([], f)"
| "normalizeNodes [n] f = ([n], f)"
| "normalizeNodes (prev # node # ns) f =
     (case (prev, node) of
        (ModelText _ a s, ModelText _ b t) \<Rightarrow>
          if haveSameAttributes b a
          then normalizeNodes (ModelText f a (s @ t) # ns) (Suc f)
          else (let (r, f') = normalizeNodes (node # ns) f in (prev # r, f'))
      | _ \<Rightarrow> (let (r, f') = normalizeNodes (node # ns) f in (prev # r, f')))"
  by pat_completeness auto
termination
  by (relation "measure (\<lambda>(ns, f). length ns)") auto

text \<open>
  \<open>_mergeNodesAtIndex( element, index )\<close>: when the children before and at \<open>index\<close>
  are both text nodes with the same attributes, they are replaced by one new text node.
\<close>

definition mergeNodesAtIndex :: "nat \<Rightarrow> model_node list \<times> ident \<Rightarrow> model_node list \<times> ident" where
  "mergeNodesAtIndex index' cf =
     (let (cs, f) = cf in
      if 0 < index' \<and> index' < length cs then
        (case (cs ! (index' - 1), cs ! index') of
           (ModelText _ a s, ModelText _ b t) \<Rightarrow>
             if haveSameAttributes a b
             then (take (index' - 1) cs @ ModelText f a (s @ t) # drop (Suc index') cs, Suc f)
             else (cs, f)
         | _ \<Rightarrow> (cs, f))
      else (cs, f))"

text \<open>
  Insertion of \<open>nodes\<close> at offset 0 (index 0) of a parent with the children \<open>cs\<close>:
  a position at the start of the parent is in no text node, so nothing is split; the
  writer merges at index \<open>0 + nodes.length\<close> and then at index 0.
\<close>

definition writer_insert_at_start ::
  "model_node list \<Rightarrow> model_node list \<Rightarrow> ident \<Rightarrow> model_node list \<times> ident"
where
  "writer_insert_at_start cs nodes f =
     (let (ns, f1) = normalizeNodes nodes f
      in mergeNodesAtIndex 0 (mergeNodesAtIndex (length ns) (ns @ cs, f1)))"

text \<open>
  \<open>modelWriter.insert( ModelPosition.createAt( modelImage ), modelChildren )\<close>: the
  position is offset 0 of \<open>modelImage\<close>. A position needs an element or a document
  fragment as its parent.
\<close>

fun insert_at_start ::
  "conv_result \<Rightarrow> model_node list \<Rightarrow> ident \<Rightarrow> error + conv_result \<times> ident"
where
  "insert_at_start Null ms f = Inl TypeError"
| "insert_at_start (Node (ModelElement i n at cs)) ms f =
     (let (cs', f') = writer_insert_at_start cs ms f in Inr (Node (ModelElement i n at cs'), f'))"
| "insert_at_start (Node (ModelText _ _ _)) ms f = Inl CKEditorError"
| "insert_at_start (Fragment i cs) ms f =
     (let (cs', f') = writer_insert_at_start cs ms f in Inr (Fragment i cs', f'))"

definition viewFigureToModel ::
  "conversion_api \<Rightarrow> conv_data \<Rightarrow> conv_state \<Rightarrow> error + conv_data \<times> conv_state"
where
  "viewFigureToModel conversionApi data st =
     (if \<not> consumable_test st (d_input data) [CName, CClass ''image''] then Inr (data, st)
      else if \<not> check (api_schema conversionApi)
                  \<lparr>q_name = ''image'', q_attributes = AttrName ''src'',
                   q_inside = arrays st (d_context data)\<rparr>
      then Inr (data, st)
      else
        (case find (\<lambda>viewChild. view_is viewChild ''img'') (getChildren (d_input data)) of
           None \<Rightarrow> Inr (data, st)
         | Some viewImage \<Rightarrow>
             if \<not> hasAttribute viewImage ''src'' \<or> \<not> consumable_test st viewImage [CName]
             then Inr (data, st)
             else
               (let (modelImage, st1) = convertItem conversionApi viewImage data st;
                    st2 = array_push (d_context data) (CtxItem modelImage) st1;
                    (modelChildren, st3) = convertChildren conversionApi (d_input data) data st2;
                    st4 = array_pop (d_context data) st3
                in case insert_at_start modelImage modelChildren (next_id st4) of
                     Inl e \<Rightarrow> Inl e
                   | Inr (out, f) \<Rightarrow> Inr (data\<lparr>d_output := out\<rparr>, st4\<lparr>next_id := f\<rparr>))))"

section \<open>The hoist-detection converter\<close>

text \<open>
  \<open>autohoistedImages\<close> is a module-level \<open>WeakSet\<close>; here it is a component of the
  state, holding the identifiers of the objects added. Adding \<open>null\<close> throws.
\<close>

definition convertHoistableImage ::
  "schema \<Rightarrow> conversion_api \<Rightarrow> conv_data \<Rightarrow> conv_state \<Rightarrow> error + conv_data \<times> conv_state"
where
  "convertHoistableImage doc_schema conversionApi data st =
     (let img = d_input data in
      if \<not> consumable_test st img [CName, CAttribute ''src''] then Inr (data, st)
      else
        (case findAllowedContext \<lparr>md_name = ''image'', md_attributes = [''src'']\<rparr>
                (d_context data) doc_schema st of
           (Inl e, st1) \<Rightarrow> Inl e
         | (Inr None, st1) \<Rightarrow> Inr (data, st1)
         | (Inr (Some allowedContext), st1) \<Rightarrow>
             (let newData = data\<lparr>d_context := allowedContext\<rparr>;
                  (out, st2) = convertItem conversionApi img newData st1
              in case result_id out of
                   None \<Rightarrow> Inl TypeError
                 | Some i \<Rightarrow>
                     Inr (data\<lparr>d_output := out\<rparr>,
                          st2\<lparr>autohoistedImages := insert i (autohoistedImages st2)\<rparr>))))"

section \<open>The hoist-repair converter\<close>

text \<open>
  \<open>newOutput\<close> is an array of object references. One of them may be \<open>data.output\<close>
  itself, which the loop keeps mutating; \<open>Orig\<close> stands for that reference and is
  resolved when the document fragment is built. The other entries (hoisted children
  and broken-off clones) are not touched again.
\<close>

datatype piece = Orig | Piece model_node

record hoist_state =
  hs_children :: "model_node list"
  hs_newOutput :: "piece list"
  hs_hasNonAutohoistedChildren :: bool
  hs_next_id :: ident

text \<open>
  One iteration of the \<open>for\<close> loop, at index \<open>i\<close>, on an element with name \<open>nm\<close> and
  attributes \<open>at\<close>; \<open>hs_children\<close> is the current child list of \<open>data.output\<close>.
  \<open>getChild( i )\<close> out of range is \<open>null\<close>, which no \<open>WeakSet\<close> holds.
  \<open>clone( false )\<close> makes a new element with the same name and attributes and no
  children; \<open>removeChildren( i + 1, n )\<close> splices \<open>n\<close> children out from index
  \<open>i + 1\<close>; \<open>child.remove()\<close> takes the child out at its index, which is \<open>i\<close>
  (a node occurs once among the children of its parent); \<open>shift\<close> drops the first
  entry of the array, if any.
\<close>

definition hoistImage_step ::
  "ident set \<Rightarrow> string \<Rightarrow> (string \<times> string) list \<Rightarrow> nat \<Rightarrow> hoist_state \<Rightarrow> hoist_state"
where
  "hoistImage_step marks nm at i s =
     (let cs = hs_children s in
      if i < length cs \<and> node_id (cs ! i) \<in> marks then
        (let child = cs ! i;
             brokenChildrenCount = length cs - i - 1;
             brokenParent =
               (if brokenChildrenCount > 0
                then Some (ModelElement (hs_next_id s) nm at
                             (take brokenChildrenCount (drop (i + 1) cs)))
                else None);
             cs1 = (if brokenChildrenCount > 0
                    then take (i + 1) cs @ drop (i + 1 + brokenChildrenCount) cs
                    else cs);
             cs2 = take i cs1 @ drop (Suc i) cs1;
             out1 = tl (hs_newOutput s);
             out2 = (case brokenParent of Some b \<Rightarrow> Piece b # out1 | None \<Rightarrow> out1);
             out3 = Piece child # out2;
             out4 = (if length cs2 > 0 then Orig # out3 else out3)
         in s\<lparr>hs_children := cs2, hs_newOutput := out4,
              hs_next_id := (if brokenChildrenCount > 0 then Suc (hs_next_id s)
                             else hs_next_id s)\<rparr>)
      else s\<lparr>hs_hasNonAutohoistedChildren := True\<rparr>)"

text \<open>The loop \<open>for ( let i = childCount - 1; i >= 0; i-- )\<close>; the counter is \<open>i + 1\<close>.\<close>

fun hoistImage_loop ::
  "ident set \<Rightarrow> string \<Rightarrow> (string \<times> string) list \<Rightarrow> nat \<Rightarrow> hoist_state \<Rightarrow> hoist_state"
where
  "hoistImage_loop marks nm at 0 s = s"
| "hoistImage_loop marks nm at (Suc i) s =
     hoistImage_loop marks nm at i (hoistImage_step marks nm at i s)"

fun resolve :: "model_node \<Rightarrow> piece \<Rightarrow> model_node" where
  "resolve orig Orig = orig"
| "resolve orig (Piece n) = n"

text \<open>
  The converter. \<open>new ModelDocumentFragment( newOutput )\<close> is a new object; clones and
  the fragment take their identifiers from \<open>next_id\<close>. The set of marked objects is
  only read.
\<close>

definition hoistImage :: "conv_data \<Rightarrow> conv_state \<Rightarrow> conv_data \<times> conv_state" where
  "hoistImage data st =
     (case d_output data of
        Null \<Rightarrow> (data, st)
      | Fragment _ _ \<Rightarrow> (data, st)
      | Node (ModelText _ _ _) \<Rightarrow> (data, st)
      | Node (ModelElement oid nm at cs) \<Rightarrow>
          (let s = hoistImage_loop (autohoistedImages st) nm at (length cs)
                     \<lparr>hs_children = cs, hs_newOutput = [],
                      hs_hasNonAutohoistedChildren = False, hs_next_id = next_id st\<rparr>;
               orig = ModelElement oid nm at (hs_children s)
           in if hs_newOutput s \<noteq> [] then
                (let newOutput = (if \<not> hs_hasNonAutohoistedChildren s
                                  then hs_newOutput s @ [Orig] else hs_newOutput s)
                 in (data\<lparr>d_output := Fragment (hs_next_id s) (map (resolve orig) newOutput)\<rparr>,
                     st\<lparr>next_id := Suc (hs_next_id s)\<rparr>))
              else (data\<lparr>d_output := Node orig\<rparr>, st\<lparr>next_id := hs_next_id s\<rparr>)))"


section \<open>Model to view: the attribute converter\<close>

text \<open>
  The state of a model-to-view pass: the markers (model item, type) that are still
  consumable, the mapper from model items to their view elements (the view element is
  kept by value, so mutating it is updating the mapper's entry), and the next unused
  identifier for view nodes.
\<close>

record view_state =
  model_consumable :: "(ident \<times> string) set"
  mapper :: "ident \<Rightarrow> view_node option"
  next_view_id :: ident

record attribute_data =
  a_item :: model_node
  attributeKey :: string
  attributeNewValue :: string

text \<open>\<open>consumable.consume( item, type )\<close>: true once for a marker that was added.\<close>

definition model_consume :: "model_node \<Rightarrow> string \<Rightarrow> view_state \<Rightarrow> bool \<times> view_state" where
  "model_consume item' ty st =
     (if (node_id item', ty) \<in> model_consumable st
      then (True, st\<lparr>model_consumable := model_consumable st - {(node_id item', ty)}\<rparr>)
      else (False, st))"

text \<open>\<open>name.split( ':' )\<close>, and \<open>parts[ k ]\<close> as it enters a string concatenation.\<close>

fun split_colon :: "string \<Rightarrow> string list" where
  "split_colon [] = [[]]"
| "split_colon (c # cs) =
     (if c = CHR '':'' then [] # split_colon cs
      else (case split_colon cs of [] \<Rightarrow> [[c]] | p # ps \<Rightarrow> (c # p) # ps))"

definition part :: "string list \<Rightarrow> nat \<Rightarrow> string" where
  "part parts k = (if k < length parts then parts ! k else ''undefined'')"

text \<open>
  \<open>setAttribute\<close> and \<open>removeAttribute\<close> of a view element, for the keys kept in the
  attribute map (the converter is registered for \<open>src\<close> and \<open>alt\<close>). A text node has
  neither method.
\<close>

fun setAttribute :: "string \<Rightarrow> string \<Rightarrow> view_node \<Rightarrow> error + view_node" where
  "setAttribute k v (ViewElement i n at cl cs) = Inr (ViewElement i n (AList.update k v at) cl cs)"
| "setAttribute k v (ViewText _ _) = Inl TypeError"

fun removeAttribute :: "string \<Rightarrow> view_node \<Rightarrow> error + view_node" where
  "removeAttribute k (ViewElement i n at cl cs) = Inr (ViewElement i n (AList.delete k at) cl cs)"
| "removeAttribute k (ViewText _ _) = Inl TypeError"

text \<open>
  The converter. \<open>mapper.toViewElement\<close> yields \<open>undefined\<close> for an unbound item and
  \<open>getChild( 0 )\<close> yields \<open>undefined\<close> for an element without children; calling a
  method on either throws.
\<close>

definition modelToViewAttributeConverter ::
  "string \<Rightarrow> attribute_data \<Rightarrow> view_state \<Rightarrow> error + view_state"
where
  "modelToViewAttributeConverter evt_name data st =
     (let parts = split_colon evt_name;
          consumableType = part parts 0 @ '':'' @ part parts 1
      in case model_consume (a_item data) consumableType st of
           (False, st1) \<Rightarrow> Inr st1
         | (True, st1) \<Rightarrow>
             (case mapper st1 (node_id (a_item data)) of
                None \<Rightarrow> Inl TypeError
              | Some figure \<Rightarrow>
                  (case figure of
                     ViewText _ _ \<Rightarrow> Inl TypeError
                   | ViewElement fi fn fat fcl [] \<Rightarrow> Inl TypeError
                   | ViewElement fi fn fat fcl (img # rest) \<Rightarrow>
                       (case (if part parts 0 = ''removeAttribute''
                              then removeAttribute (attributeKey data) img
                              else setAttribute (attributeKey data) (attributeNewValue data) img) of
                          Inl e \<Rightarrow> Inl e
                        | Inr img' \<Rightarrow>
                            Inr (st1\<lparr>mapper := (mapper st1)
                                   (node_id (a_item data) \<mapsto> ViewElement fi fn fat fcl (img' # rest))\<rparr>)))))"

section \<open>What the plugin registers\<close>

text \<open>
  \<open>createImageViewElement\<close>: a \<open>figure\<close> of class \<open>image\<close> holding an empty \<open>img\<close>.
  The two new objects take the identifiers \<open>i\<close> and \<open>i + 1\<close>.
\<close>

definition createImageViewElement :: "ident \<Rightarrow> view_node" where
  "createImageViewElement i =
     ViewElement (Suc i) ''figure'' [] [''image''] [ViewElement i ''img'' [] [] []]"

text \<open>
  The pattern \<open>/./\<close> of the two view-to-model converters: some character that is not a
  line terminator. (Of the line terminators, line feed and carriage return are
  characters of \<open>string\<close>.)
\<close>

definition regex_dot :: "string \<Rightarrow> bool" where
  "regex_dot s = list_ex (\<lambda>c. c \<noteq> CHR 0x0A \<and> c \<noteq> CHR 0x0D) s"

text \<open>
  The element converter for \<open>{ name: 'img', attribute: { src: /./ } }\<close>:
  \<open>new ModelElement( 'image', { src: viewImage.getAttribute( 'src' ) } )\<close>, a new object
  with identifier \<open>i\<close>; nothing when the pattern does not match.
\<close>

definition viewImageToElement :: "ident \<Rightarrow> view_node \<Rightarrow> conv_result" where
  "viewImageToElement i viewImage =
     (case viewImage of
        ViewText _ _ \<Rightarrow> Null
      | ViewElement _ n _ _ _ \<Rightarrow>
          if n = ''img'' then
            (case getAttribute viewImage ''src'' of
               None \<Rightarrow> Null
             | Some s \<Rightarrow> if regex_dot s then Node (ModelElement i ''image'' [(''src'', s)] []) else Null)
          else Null)"

text \<open>
  The attribute converter for \<open>{ name: 'img', attribute: { alt: /./ } }\<close>: the key
  \<open>alt\<close> with \<open>viewImage.getAttribute( 'alt' )\<close>, set on the converted element; no
  change when the pattern does not match.
\<close>

definition viewImageAltAttribute :: "view_node \<Rightarrow> conv_result \<Rightarrow> conv_result" where
  "viewImageAltAttribute viewImage out =
     (case viewImage of
        ViewText _ _ \<Rightarrow> out
      | ViewElement _ n _ _ _ \<Rightarrow>
          if n = ''img'' then
            (case getAttribute viewImage ''alt'' of
               None \<Rightarrow> out
             | Some a \<Rightarrow>
                 if regex_dot a then
                   (case out of
                      Node (ModelElement i nm at cs) \<Rightarrow>
                        Node (ModelElement i nm (AList.update ''alt'' a at) cs)
                    | _ \<Rightarrow> out)
                 else out)
          else out)"

text \<open>
  What converting an unconsumed \<open>img\<close> yields through the two registered converters,
  where the schema allows the image and its attributes.
\<close>

definition registeredImgConversion :: "ident \<Rightarrow> view_node \<Rightarrow> conv_result" where
  "registeredImgConversion i viewImage = viewImageAltAttribute viewImage (viewImageToElement i viewImage)"

text \<open>
  Model to view for an inserted \<open>image\<close>: the element converter binds a new
  \<open>createImageViewElement()\<close> to the item, and the host fires
  \<open>addAttribute:key:image\<close> for every attribute of the item, each with its own
  consumable marker; \<open>createImageAttributeConverter\<close> is called for \<open>src\<close> and
  \<open>alt\<close>, so the attribute converter listens for these two keys.
\<close>

definition registered_keys :: "string list" where
  "registered_keys = [''src'', ''alt'']"

fun fire_addAttribute ::
  "model_node \<Rightarrow> (string \<times> string) list \<Rightarrow> view_state \<Rightarrow> error + view_state"
where
  "fire_addAttribute item' [] st = Inr st"
| "fire_addAttribute item' ((k, v) # kvs) st =
     (if k \<in> set registered_keys then
        (case modelToViewAttributeConverter (''addAttribute:'' @ k @ '':image'')
                \<lparr>a_item = item', attributeKey = k, attributeNewValue = v\<rparr> st of
           Inl e \<Rightarrow> Inl e
         | Inr st1 \<Rightarrow> fire_addAttribute item' kvs st1)
      else fire_addAttribute item' kvs st)"

definition insertImageToView :: "model_node \<Rightarrow> view_state \<Rightarrow> error + view_state" where
  "insertImageToView item' st =
     (case item' of
        ModelText _ _ _ \<Rightarrow> Inr st
      | ModelElement i nm at cs \<Rightarrow>
          if nm = ''image'' then
            fire_addAttribute item' at
              (st\<lparr>model_consumable :=
                    model_consumable st \<union> (\<lambda>(k, v). (i, ''addAttribute:'' @ k)) ` set at,
                  mapper := (mapper st)(i \<mapsto> createImageViewElement (next_view_id st)),
                  next_view_id := next_view_id st + 2\<rparr>)
          else Inr st)"

section \<open>A small host\<close>

text \<open>
  A host to run the converters on concrete documents: \<open>convertItem\<close> converts an
  unconsumed \<open>img\<close> through the registered converters and consumes its name and
  \<open>src\<close>, converts any other unconsumed element to a \<open>paragraph\<close> holding its text,
  and converts text to text; \<open>convertChildren\<close> converts the children in order and keeps
  what was converted.
\<close>

fun host_text :: "ident \<Rightarrow> view_node list \<Rightarrow> model_node list" where
  "host_text i [] = []"
| "host_text i (ViewText _ t # vs) = ModelText i [] t # host_text (Suc i) vs"
| "host_text i (ViewElement _ _ _ _ _ # vs) = host_text i vs"

definition host_convertItem :: "view_node \<Rightarrow> conv_data \<Rightarrow> conv_state \<Rightarrow> conv_result \<times> conv_state" where
  "host_convertItem v data st =
     (case v of
        ViewText _ t \<Rightarrow> (Node (ModelText (next_id st) [] t), st\<lparr>next_id := Suc (next_id st)\<rparr>)
      | ViewElement _ n _ _ cs \<Rightarrow>
          if n = ''img'' then
            (if consumable_test st v [CName, CAttribute ''src'']
                \<and> registeredImgConversion (next_id st) v \<noteq> Null
             then (registeredImgConversion (next_id st) v,
                   (snd (consumable_consume v [CName, CAttribute ''src''] st))
                     \<lparr>next_id := Suc (next_id st)\<rparr>)
             else (Null, st))
          else
            (if consumable_test st v [CName]
             then (Node (ModelElement (next_id st) ''paragraph'' [] (host_text (Suc (next_id st)) cs)),
                   (snd (consumable_consume v [CName] st))
                     \<lparr>next_id := Suc (next_id st) + length (host_text 0 cs)\<rparr>)
             else (Null, st)))"

fun host_convertList ::
  "view_node list \<Rightarrow> conv_data \<Rightarrow> conv_state \<Rightarrow> model_node list \<times> conv_state"
where
  "host_convertList [] data st = ([], st)"
| "host_convertList (v # vs) data st =
     (let (r, st1) = host_convertItem v data st;
          (ms, st2) = host_convertList vs data st1
      in ((case r of Null \<Rightarrow> [] | Node m \<Rightarrow> [m] | Fragment _ fs \<Rightarrow> fs) @ ms, st2))"

definition host_api :: "schema \<Rightarrow> conversion_api" where
  "host_api sch =
     \<lparr>api_schema = sch, convertItem = host_convertItem,
      convertChildren = (\<lambda>v. host_convertList (getChildren v))\<rparr>"

section \<open>The default converters of a data pipeline\<close>



section \<open>Text nodes that meet\<close>



section \<open>Reading the output of the repair converter\<close>

fun m_children :: "model_node \<Rightarrow> model_node list" where
  "m_children (ModelElement _ _ _ cs) = cs"
| "m_children (ModelText _ _ _) = []"

text \<open>
  In the output for an element with identifier \<open>oid\<close>, repaired in a state whose next
  unused identifier was \<open>fresh\<close>, an element piece is the original element or one of
  its clones (a new object); every other entry is a hoisted child.
\<close>

definition element_piece :: "ident \<Rightarrow> ident \<Rightarrow> model_node \<Rightarrow> bool" where
  "element_piece oid fresh p = (node_id p = oid \<or> fresh \<le> node_id p)"

text \<open>Flattening: a hoisted node itself, the children of an element piece.\<close>

definition flatten_output :: "ident \<Rightarrow> ident \<Rightarrow> model_node list \<Rightarrow> model_node list" where
  "flatten_output oid fresh ps =
     concat (map (\<lambda>p. if element_piece oid fresh p then m_children p else [p]) ps)"

definition no_empty_piece :: "ident \<Rightarrow> ident \<Rightarrow> model_node list \<Rightarrow> bool" where
  "no_empty_piece oid fresh ps =
     list_all (\<lambda>p. element_piece oid fresh p \<longrightarrow> m_children p \<noteq> []) ps"

text \<open>
  The invariant of the loop before the iteration at index \<open>k - 1\<close>, for an element with
  children \<open>cs0\<close>: either nothing was hoisted yet, or \<open>newOutput\<close> starts with
  \<open>data.output\<close>, whose children are a non-empty prefix of \<open>cs0\<close>, followed by
  pieces that flatten to the rest, or \<open>data.output\<close> is empty and left out, and the
  pieces flatten to \<open>cs0\<close>. The flag is set once an unmarked child was seen.
\<close>

definition hoist_inv ::
  "ident set \<Rightarrow> ident \<Rightarrow> ident \<Rightarrow> model_node list \<Rightarrow> nat \<Rightarrow> hoist_state \<Rightarrow> bool"
where
  "hoist_inv M oid f0 cs0 k s =
     (f0 \<le> hs_next_id s \<and>
      (\<forall>j. k \<le> j \<and> j < length cs0 \<and> node_id (cs0 ! j) \<notin> M
            \<longrightarrow> hs_hasNonAutohoistedChildren s) \<and>
      ((hs_newOutput s = [] \<and> hs_children s = cs0 \<and> k \<le> length cs0)
       \<or> (\<exists>ms. hs_newOutput s = Orig # map Piece ms \<and> hs_children s \<noteq> [] \<and>
               k \<le> length (hs_children s) \<and>
               hs_children s @ flatten_output oid f0 ms = cs0 \<and> no_empty_piece oid f0 ms \<and>
               (\<forall>j. k \<le> j \<and> j < length (hs_children s) \<longrightarrow> node_id (cs0 ! j) \<notin> M))
       \<or> (\<exists>ms. k = 0 \<and> hs_newOutput s = map Piece ms \<and> ms \<noteq> [] \<and> hs_children s = [] \<and>
               flatten_output oid f0 ms = cs0 \<and> no_empty_piece oid f0 ms)))"

section \<open>Round trip\<close>

text \<open>
  View to model by the figure converter, then model to view for the resulting image:
  the view element bound to the image, if both directions succeed.
\<close>

definition roundtrip ::
  "conversion_api \<Rightarrow> conv_data \<Rightarrow> conv_state \<Rightarrow> view_state \<Rightarrow> view_node option"
where
  "roundtrip conversionApi data st vst =
     (case viewFigureToModel conversionApi data st of
        Inl e \<Rightarrow> None
      | Inr (data', st') \<Rightarrow>
          (case d_output data' of
             Node m \<Rightarrow>
               (case insertImageToView m vst of
                  Inl e \<Rightarrow> None
                | Inr vst' \<Rightarrow> mapper vst' (node_id m))
           | _ \<Rightarrow> None))"

section \<open>Example documents\<close>

text \<open>A pass with the given marked objects, for results of conversion.\<close>

definition example_state :: "ident set \<Rightarrow> conv_state" where
  "example_state marks =
     \<lparr>arrays = (\<lambda>_. []), next_ref = 0, consumable = {}, autohoistedImages = marks,
      next_id = 100\<rparr>"

definition example_data :: "conv_result \<Rightarrow> conv_data" where
  "example_data out = \<lparr>d_input = ViewElement 0 ''p'' [] [] [], d_context = 0, d_output = out\<rparr>"

text \<open>
  A schema that allows an image in the root only; a figure of class \<open>image\<close> holding
  an \<open>img\<close> with the given attributes and further children; a pass in which the
  context chain at reference 0 is the given one and nothing is consumed yet.
\<close>

definition example_schema :: schema where
  "example_schema =
     \<lparr>check = (\<lambda>q. q_name q = ''image'' \<and> q_inside q = [CtxName ''$root'']), limits = {}\<rparr>"


definition example_img :: "(string \<times> string) list \<Rightarrow> view_node" where
  "example_img img_attrs = ViewElement 2 ''img'' img_attrs [] []"

definition example_figure :: "(string \<times> string) list \<Rightarrow> view_node list \<Rightarrow> view_node" where
  "example_figure img_attrs rest =
     ViewElement 1 ''figure'' [] [''image''] (example_img img_attrs # rest)"

definition example_caption :: view_node where
  "example_caption = ViewElement 3 ''p'' [] [] [ViewText 4 ''caption'']"

definition example_pass :: "ctx_entry list \<Rightarrow> conv_state" where
  "example_pass chain =
     \<lparr>arrays = (\<lambda>_. [])(0 := chain), next_ref = 1,
      consumable = {(1, CName), (1, CClass ''image''), (2, CName), (2, CAttribute ''src''),
                    (2, CAttribute ''alt''), (3, CName), (4, CName)},
      autohoistedImages = {}, next_id = 100\<rparr>"

definition example_input :: "view_node \<Rightarrow> conv_data" where
  "example_input v = \<lparr>d_input = v, d_context = 0, d_output = Null\<rparr>"

definition example_view_state :: view_state where
  "example_view_state = \<lparr>model_consumable = {}, mapper = (\<lambda>_. None), next_view_id = 0\<rparr>"

section \<open>Properties of the search for an allowed context\<close>

text \<open>The loop touches no array but the one it works on, and allocates nothing.\<close>

lemma findAllowedContext_loop_frame:
  "findAllowedContext_loop sch md c h = (r, h') \<Longrightarrow>
     next_ref h' = next_ref h \<and> (\<forall>r'. r' \<noteq> c \<longrightarrow> arrays h' r' = arrays h r')"
proof (induction sch md c h rule: findAllowedContext_loop.induct)
  case (1 sch md c h)
  show ?case
  proof (cases "arrays h c \<noteq> [] \<and> \<not> check sch (schemaQuery md (arrays h c))")
    case False
    with "1.prems" show ?thesis
      by (simp add: findAllowedContext_loop.simps [of sch md c h])
  next
    case True
    show ?thesis
    proof (cases "parentName (last (arrays h c))")
      case (Inl e)
      with True "1.prems" show ?thesis
        by (auto simp: findAllowedContext_loop.simps [of sch md c h] array_pop_def)
    next
      case (Inr pn)
      show ?thesis
      proof (cases "limits_has sch pn")
        case lim: True
        with True Inr "1.prems" show ?thesis
          by (auto simp: findAllowedContext_loop.simps [of sch md c h] array_pop_def)
      next
        case nolim: False
        with True Inr "1.prems"
        have rec: "findAllowedContext_loop sch md c (array_pop c h) = (r, h')"
          by (simp add: findAllowedContext_loop.simps [of sch md c h])
        from "1.IH" [OF True refl refl Inr nolim rec]
        show ?thesis by (simp add: array_pop_def)
      qed
    qed
  qed
qed

text \<open>
  A context the loop returns is the array it was given minus a popped tail, the schema
  allows the element there, and no popped entry bears the name of a limit.
\<close>

lemma findAllowedContext_loop_found:
  "findAllowedContext_loop sch md c h = (Inr (Some c'), h') \<Longrightarrow>
     c' = c \<and> arrays h' c \<noteq> [] \<and> check sch (schemaQuery md (arrays h' c)) \<and>
     (\<exists>popped. arrays h c = arrays h' c @ popped \<and>
        (\<forall>e \<in> set popped. \<exists>pn. parentName e = Inr pn \<and> \<not> limits_has sch pn))"
proof (induction sch md c h rule: findAllowedContext_loop.induct)
  case (1 sch md c h)
  show ?case
  proof (cases "arrays h c \<noteq> [] \<and> \<not> check sch (schemaQuery md (arrays h c))")
    case False
    with "1.prems" show ?thesis
      by (auto simp: findAllowedContext_loop.simps [of sch md c h] split: if_splits)
  next
    case True
    show ?thesis
    proof (cases "parentName (last (arrays h c))")
      case (Inl e)
      with True "1.prems" show ?thesis
        by (auto simp: findAllowedContext_loop.simps [of sch md c h] array_pop_def)
    next
      case (Inr pn)
      show ?thesis
      proof (cases "limits_has sch pn")
        case lim: True
        with True Inr "1.prems" show ?thesis
          by (auto simp: findAllowedContext_loop.simps [of sch md c h] array_pop_def)
      next
        case nolim: False
        with True Inr "1.prems"
        have rec: "findAllowedContext_loop sch md c (array_pop c h) = (Inr (Some c'), h')"
          by (simp add: findAllowedContext_loop.simps [of sch md c h])
        from "1.IH" [OF True refl refl Inr nolim rec]
        obtain popped where ih: "c' = c" "arrays h' c \<noteq> []"
          "check sch (schemaQuery md (arrays h' c))"
          "butlast (arrays h c) = arrays h' c @ popped"
          "\<forall>e \<in> set popped. \<exists>pn. parentName e = Inr pn \<and> \<not> limits_has sch pn"
          by (auto simp: array_pop_def)
        from True have "arrays h c = butlast (arrays h c) @ [last (arrays h c)]" by simp
        with ih(4) have "arrays h c = arrays h' c @ (popped @ [last (arrays h c)])" by simp
        moreover have "\<forall>e \<in> set (popped @ [last (arrays h c)]).
            \<exists>pn. parentName e = Inr pn \<and> \<not> limits_has sch pn"
          using ih(5) Inr nolim by auto
        ultimately show ?thesis using ih(1-3) by blast
      qed
    qed
  qed
qed

text \<open>
  When the schema rejects every chain that still holds an entry named as a limit, the
  loop pops down to that entry and answers \<open>null\<close>, whatever the schema says of the
  chains below it.
\<close>

lemma findAllowedContext_loop_limit:
  "arrays h c = pre @ e # post \<Longrightarrow> parentName e = Inr pn \<Longrightarrow> limits_has sch pn \<Longrightarrow>
   (\<forall>k \<le> length post. \<not> check sch (schemaQuery md (pre @ e # take k post))) \<Longrightarrow>
   (\<forall>x \<in> set post. parentName x \<noteq> Inl TypeError) \<Longrightarrow>
   fst (findAllowedContext_loop sch md c h) = Inr None"
proof (induction post arbitrary: h rule: rev_induct)
  case Nil
  then have "\<not> check sch (schemaQuery md (pre @ [e]))" by simp
  with Nil show ?case
    by (simp add: findAllowedContext_loop.simps [of sch md c h] array_pop_def)
next
  case (snoc x xs)
  from snoc.prems(4) have nc: "\<not> check sch (schemaQuery md (pre @ e # xs @ [x]))"
    by (auto dest: spec [of _ "Suc (length xs)"])
  have pop: "arrays (array_pop c h) c = pre @ e # xs"
    using snoc.prems(1) by (simp add: array_pop_def butlast_append)
  have ih: "fst (findAllowedContext_loop sch md c (array_pop c h)) = Inr None"
  proof (rule snoc.IH [OF pop snoc.prems(2,3)])
    show "\<forall>k\<le>length xs. \<not> check sch (schemaQuery md (pre @ e # take k xs))"
    proof (intro allI impI)
      fix k assume "k \<le> length xs"
      then have "take k (xs @ [x]) = take k xs" by simp
      moreover from \<open>k \<le> length xs\<close> snoc.prems(4)
      have "\<not> check sch (schemaQuery md (pre @ e # take k (xs @ [x])))"
        by (metis le_SucI length_append_singleton)
      ultimately show "\<not> check sch (schemaQuery md (pre @ e # take k xs))" by simp
    qed
    show "\<forall>x\<in>set xs. parentName x \<noteq> Inl TypeError" using snoc.prems(5) by simp
  qed
  have "\<And>a. parentName x = Inl a \<Longrightarrow> a = TypeError"
    by (cases x rule: parentName.cases) auto
  with snoc.prems(5) obtain pn' where px: "parentName x = Inr pn'"
    by (cases "parentName x") auto
  show ?case
    using snoc.prems(1) nc px ih
    by (simp add: findAllowedContext_loop.simps [of sch md c h] Let_def)
qed

text \<open>
  C1. The search never returns a context reached by popping an entry whose name is a
  schema limit. First, whenever it returns a context, that context is the handed chain
  minus a popped tail and none of the popped entries is named as a limit. Second, when
  the chain holds an entry \<open>e\<close> named as a limit and the schema rejects every chain
  that still holds \<open>e\<close> (so that \<open>e\<close> is popped), the answer is \<open>null\<close>, whether or
  not the schema would accept an ancestor chain below \<open>e\<close>.
\<close>

theorem findAllowedContext_never_past_limit:
  "(findAllowedContext md ctx sch h = (Inr (Some c), h') \<longrightarrow>
      (\<exists>popped. arrays h ctx = arrays h' c @ popped \<and>
         (\<forall>e \<in> set popped. \<exists>pn. parentName e = Inr pn \<and> \<not> limits_has sch pn)))
   \<and>
   (arrays h ctx = pre @ e # post \<and> parentName e = Inr pn \<and> limits_has sch pn \<and>
    (\<forall>k \<le> length post. \<not> check sch (schemaQuery md (pre @ e # take k post))) \<and>
    (\<forall>x \<in> set post. parentName x \<noteq> Inl TypeError) \<longrightarrow>
      fst (findAllowedContext md ctx sch h) = Inr None)"
proof (intro conjI impI)
  let ?h1 = "snd (array_slice ctx h)"
  let ?c = "fst (array_slice ctx h)"
  have copy: "arrays ?h1 ?c = arrays h ctx"
    by (simp add: array_slice_def)
  have unf: "findAllowedContext md ctx sch h = findAllowedContext_loop sch md ?c ?h1"
    by (simp add: findAllowedContext_def split_beta)
  {
    assume "findAllowedContext md ctx sch h = (Inr (Some c), h')"
    with unf have "findAllowedContext_loop sch md ?c ?h1 = (Inr (Some c), h')" by simp
    from findAllowedContext_loop_found [OF this] copy
    show "\<exists>popped. arrays h ctx = arrays h' c @ popped \<and>
         (\<forall>e \<in> set popped. \<exists>pn. parentName e = Inr pn \<and> \<not> limits_has sch pn)"
      by auto
  }
  {
    assume a: "arrays h ctx = pre @ e # post \<and> parentName e = Inr pn \<and> limits_has sch pn \<and>
      (\<forall>k \<le> length post. \<not> check sch (schemaQuery md (pre @ e # take k post))) \<and>
      (\<forall>x \<in> set post. parentName x \<noteq> Inl TypeError)"
    then have "arrays ?h1 ?c = pre @ e # post" using copy by simp
    from findAllowedContext_loop_limit [OF this, of pn sch md] a unf
    show "fst (findAllowedContext md ctx sch h) = Inr None" by simp
  }
qed

text \<open>
  An image inside a disallowed inline element inside a limit container inside a root
  that would allow it: not found. Without the limit, the root context is found.
\<close>

theorem findAllowedContext_never_past_limit_witness:
  "fst (findAllowedContext \<lparr>md_name = ''image'', md_attributes = [''src'']\<rparr> 0
         \<lparr>check = (\<lambda>q. q_inside q = [CtxName ''$root'']), limits = {''caption''}\<rparr>
         \<lparr>arrays = (\<lambda>_. [])(0 := [CtxName ''$root'', CtxName ''caption'', CtxName ''span'']),
          next_ref = 1\<rparr>) = Inr None
   \<and> check \<lparr>check = (\<lambda>q. q_inside q = [CtxName ''$root'']), limits = {''caption''}\<rparr>
        (schemaQuery \<lparr>md_name = ''image'', md_attributes = [''src'']\<rparr> [CtxName ''$root''])
   \<and> fst (findAllowedContext \<lparr>md_name = ''image'', md_attributes = [''src'']\<rparr> 0
         \<lparr>check = (\<lambda>q. q_inside q = [CtxName ''$root'']), limits = {''caption''}\<rparr>
         \<lparr>arrays = (\<lambda>_. [])(0 := [CtxName ''$root'', CtxName ''paragraph'', CtxName ''span'']),
          next_ref = 1\<rparr>) = Inr (Some 1)"
proof -
  let ?md = "\<lparr>md_name = ''image'', md_attributes = [''src'']\<rparr>"
  let ?sch = "\<lparr>check = (\<lambda>q. q_inside q = [CtxName ''$root'']), limits = {''caption''}\<rparr>"
  let ?h = "\<lparr>arrays = (\<lambda>_. [])(0 := [CtxName ''$root'', CtxName ''caption'', CtxName ''span'']),
          next_ref = 1\<rparr>"
  have hyp: "arrays ?h 0 = [CtxName ''$root''] @ CtxName ''caption'' # [CtxName ''span''] \<and>
      parentName (CtxName ''caption'') = Inr (Some ''caption'') \<and>
      limits_has ?sch (Some ''caption'') \<and>
      (\<forall>k \<le> length [CtxName ''span''].
          \<not> check ?sch (schemaQuery ?md ([CtxName ''$root''] @ CtxName ''caption'' # take k [CtxName ''span'']))) \<and>
      (\<forall>x \<in> set [CtxName ''span'']. parentName x \<noteq> Inl TypeError)"
    by (simp add: limits_has_def schemaQuery_def)
  have first: "fst (findAllowedContext ?md 0 ?sch ?h) = Inr None"
    using findAllowedContext_never_past_limit
            [of ?md 0 ?sch ?h 0 ?h "[CtxName ''$root'']" "CtxName ''caption''"
                "[CtxName ''span'']" "Some ''caption''", THEN conjunct2] hyp
    by blast
  have second: "check ?sch (schemaQuery ?md [CtxName ''$root''])"
    by (simp add: schemaQuery_def)
  have third: "fst (findAllowedContext ?md 0 ?sch
         \<lparr>arrays = (\<lambda>_. [])(0 := [CtxName ''$root'', CtxName ''paragraph'', CtxName ''span'']),
          next_ref = 1\<rparr>) = Inr (Some 1)"
    by (simp add: findAllowedContext_def array_slice_def findAllowedContext_loop.simps
          schemaQuery_def array_pop_def limits_has_def)
  from first second third show ?thesis by blast
qed

section \<open>Properties of the repair converter\<close>

text \<open>
  C2. For an element with children \<open>[A, H, B, C]\<close> of which exactly \<open>H\<close> is marked,
  the result becomes a document fragment holding, in this order, the original element
  (same identifier) with the one child \<open>A\<close>, then \<open>H\<close> itself at top level, then a
  clone of the element (a new object with the same name and attributes) holding \<open>B\<close>
  and \<open>C\<close>.
\<close>

theorem hoistImage_breaks_around_hoisted_child:
  assumes "d_output data = Node (ModelElement oid nm at [A, H, B, C])"
    and "node_id H \<in> autohoistedImages st"
    and "node_id A \<notin> autohoistedImages st"
    and "node_id B \<notin> autohoistedImages st"
    and "node_id C \<notin> autohoistedImages st"
  shows "hoistImage data st =
    (data\<lparr>d_output := Fragment (Suc (next_id st))
        [ModelElement oid nm at [A], H, ModelElement (next_id st) nm at [B, C]]\<rparr>,
     st\<lparr>next_id := Suc (Suc (next_id st))\<rparr>)"
  using assms
  by (simp add: hoistImage_def hoistImage_step_def Let_def)

theorem hoistImage_breaks_around_hoisted_child_witness:
  "hoistImage
     (example_data (Node (ModelElement 50 ''paragraph'' []
        [ModelText 1 [] ''a'', ModelElement 2 ''image'' [(''src'', ''x'')] [],
         ModelText 3 [] ''b'', ModelText 4 [] ''c''])))
     (example_state {2}) =
   ((example_data (Node (ModelElement 50 ''paragraph'' []
        [ModelText 1 [] ''a'', ModelElement 2 ''image'' [(''src'', ''x'')] [],
         ModelText 3 [] ''b'', ModelText 4 [] ''c''])))
      \<lparr>d_output := Fragment 101
         [ModelElement 50 ''paragraph'' [] [ModelText 1 [] ''a''],
          ModelElement 2 ''image'' [(''src'', ''x'')] [],
          ModelElement 100 ''paragraph'' [] [ModelText 3 [] ''b'', ModelText 4 [] ''c'']]\<rparr>,
    (example_state {2})\<lparr>next_id := 102\<rparr>)"
  using hoistImage_breaks_around_hoisted_child
    [of "example_data (Node (ModelElement 50 ''paragraph'' []
        [ModelText 1 [] ''a'', ModelElement 2 ''image'' [(''src'', ''x'')] [],
         ModelText 3 [] ''b'', ModelText 4 [] ''c'']))"
        50 "''paragraph''" "[]" "ModelText 1 [] ''a''"
        "ModelElement 2 ''image'' [(''src'', ''x'')] []" "ModelText 3 [] ''b''" "ModelText 4 [] ''c''"
        "example_state {2}"]
  by (simp add: example_data_def example_state_def)

text \<open>
  C3. For an element whose only child is marked, the result becomes the document
  fragment holding the hoisted child and then the original element (same identifier,
  name and attributes), now empty: the element is not dropped.
\<close>

theorem hoistImage_only_child_hoisted:
  assumes "d_output data = Node (ModelElement oid nm at [H])"
    and "node_id H \<in> autohoistedImages st"
  shows "hoistImage data st =
    (data\<lparr>d_output := Fragment (next_id st) [H, ModelElement oid nm at []]\<rparr>,
     st\<lparr>next_id := Suc (next_id st)\<rparr>)"
  using assms
  by (simp add: hoistImage_def hoistImage_step_def Let_def)

theorem hoistImage_only_child_hoisted_witness:
  "hoistImage
     (example_data (Node (ModelElement 50 ''paragraph'' []
        [ModelElement 2 ''image'' [(''src'', ''x'')] []])))
     (example_state {2}) =
   ((example_data (Node (ModelElement 50 ''paragraph'' []
        [ModelElement 2 ''image'' [(''src'', ''x'')] []])))
      \<lparr>d_output := Fragment 100
         [ModelElement 2 ''image'' [(''src'', ''x'')] [],
          ModelElement 50 ''paragraph'' [] []]\<rparr>,
    (example_state {2})\<lparr>next_id := 101\<rparr>)"
  using hoistImage_only_child_hoisted
    [of "example_data (Node (ModelElement 50 ''paragraph'' []
        [ModelElement 2 ''image'' [(''src'', ''x'')] []]))"
        50 "''paragraph''" "[]" "ModelElement 2 ''image'' [(''src'', ''x'')] []"
        "example_state {2}"]
  by (simp add: example_data_def example_state_def)

text \<open>The two branches of one iteration.\<close>

lemma hoistImage_step_unmarked:
  "\<not> (i < length (hs_children s) \<and> node_id (hs_children s ! i) \<in> M) \<Longrightarrow>
   hoistImage_step M nm at i s = s\<lparr>hs_hasNonAutohoistedChildren := True\<rparr>"
  unfolding hoistImage_step_def Let_def by (simp only: if_False)

lemma hoistImage_step_marked:
  assumes "i < length (hs_children s)" "node_id (hs_children s ! i) \<in> M"
  shows "hoistImage_step M nm at i s =
     s\<lparr>hs_children := take i (hs_children s),
       hs_newOutput := (if 0 < i then [Orig] else []) @ Piece (hs_children s ! i) #
          (if Suc i < length (hs_children s)
           then [Piece (ModelElement (hs_next_id s) nm at (drop (Suc i) (hs_children s)))] else [])
          @ tl (hs_newOutput s),
       hs_next_id := (if Suc i < length (hs_children s) then Suc (hs_next_id s) else hs_next_id s)\<rparr>"
proof -
  let ?cs = "hs_children s"
  have 1: "Suc i < length ?cs \<Longrightarrow> take i (take (Suc i) ?cs) @ drop (Suc i) (take (Suc i) ?cs) = take i ?cs"
    by (simp add: min_def)
  have 2: "\<not> Suc i < length ?cs \<Longrightarrow> take i ?cs @ drop (Suc i) ?cs = take i ?cs"
    using assms(1) by simp
  have 3: "length ?cs - i - 1 > 0 \<longleftrightarrow> Suc i < length ?cs" by auto
  show ?thesis
    using assms 1 2
    apply (simp add: hoistImage_step_def Let_def 3 del: One_nat_def)
    apply (auto simp: min_def)
    done
qed


lemma flatten_output_Nil [simp]: "flatten_output oid f0 [] = []"
  by (simp add: flatten_output_def)

lemma flatten_output_Cons:
  "flatten_output oid f0 (p # ps) =
     (if element_piece oid f0 p then m_children p else [p]) @ flatten_output oid f0 ps"
  by (simp add: flatten_output_def)

lemma flatten_output_append:
  "flatten_output oid f0 (ps @ qs) = flatten_output oid f0 ps @ flatten_output oid f0 qs"
  by (simp add: flatten_output_def)

lemma hoist_inv_step:
  assumes inv: "hoist_inv M oid f0 cs0 (Suc i) s"
    and wf: "\<forall>c \<in> set cs0. node_id c \<noteq> oid \<and> node_id c < f0"
  shows "hoist_inv M oid f0 cs0 i (hoistImage_step M nm at i s)"
proof -
  let ?cs = "hs_children s"
  from inv have f0: "f0 \<le> hs_next_id s"
    and flag: "\<forall>j. Suc i \<le> j \<and> j < length cs0 \<and> node_id (cs0 ! j) \<notin> M \<longrightarrow> hs_hasNonAutohoistedChildren s"
    by (auto simp: hoist_inv_def)
  have "\<exists>ms. ((hs_newOutput s = [] \<and> ms = []) \<or> hs_newOutput s = Orig # map Piece ms) \<and>
    ?cs \<noteq> [] \<and> Suc i \<le> length ?cs \<and> ?cs @ flatten_output oid f0 ms = cs0 \<and>
    no_empty_piece oid f0 ms \<and>
    (hs_newOutput s \<noteq> [] \<longrightarrow> (\<forall>j. Suc i \<le> j \<and> j < length ?cs \<longrightarrow> node_id (cs0 ! j) \<notin> M))"
    using inv unfolding hoist_inv_def
  proof (elim conjE disjE exE)
    assume "hs_newOutput s = []" "?cs = cs0" "Suc i \<le> length cs0"
    then show ?thesis
      by (intro exI [of _ "[]"]) (auto simp: no_empty_piece_def)
  next
    fix ms
    assume "hs_newOutput s = Orig # map Piece ms" "?cs \<noteq> []" "Suc i \<le> length ?cs"
      "?cs @ flatten_output oid f0 ms = cs0" "no_empty_piece oid f0 ms"
      "\<forall>j. Suc i \<le> j \<and> j < length ?cs \<longrightarrow> node_id (cs0 ! j) \<notin> M"
    then show ?thesis
      by (intro exI [of _ ms]) simp
  next
    fix ms assume "Suc i = 0"
    then show ?thesis by simp
  qed
  then obtain ms where shape:
    "(hs_newOutput s = [] \<and> ms = []) \<or> hs_newOutput s = Orig # map Piece ms"
    "?cs \<noteq> []" "Suc i \<le> length ?cs" "?cs @ flatten_output oid f0 ms = cs0"
    "no_empty_piece oid f0 ms"
    "hs_newOutput s \<noteq> [] \<longrightarrow> (\<forall>j. Suc i \<le> j \<and> j < length ?cs \<longrightarrow> node_id (cs0 ! j) \<notin> M)"
    by blast
  have ilt: "i < length ?cs" using shape(3) by simp
  have nth0: "cs0 ! i = ?cs ! i" using shape(4) ilt by (auto simp: nth_append)
  have tl_out: "tl (hs_newOutput s) = map Piece ms" using shape(1) by auto
  show ?thesis
  proof (cases "node_id (?cs ! i) \<in> M")
    case False
    then have st: "hoistImage_step M nm at i s = s\<lparr>hs_hasNonAutohoistedChildren := True\<rparr>"
      by (simp add: hoistImage_step_unmarked)
    show ?thesis
    proof (cases "hs_newOutput s = []")
      case True
      with shape(1,3,4) have "?cs = cs0" "i \<le> length cs0" by auto
      with True f0 show ?thesis unfolding st hoist_inv_def by simp
    next
      case F: False
      with shape(1) have out: "hs_newOutput s = Orig # map Piece ms" by auto
      have "\<forall>j. i \<le> j \<and> j < length ?cs \<longrightarrow> node_id (cs0 ! j) \<notin> M"
      proof (intro allI impI)
        fix j assume j: "i \<le> j \<and> j < length ?cs"
        show "node_id (cs0 ! j) \<notin> M"
        proof (cases "j = i")
          case True with False nth0 show ?thesis by simp
        next
          case False with j shape(6) F show ?thesis by auto
        qed
      qed
      with out shape f0 ilt show ?thesis unfolding st hoist_inv_def by auto
    qed
  next
    case True
    let ?clone = "ModelElement (hs_next_id s) nm at (drop (Suc i) ?cs)"
    let ?ms' = "?cs ! i # (if Suc i < length ?cs then [?clone] else []) @ ms"
    have st: "hoistImage_step M nm at i s =
      s\<lparr>hs_children := take i ?cs,
        hs_newOutput := (if 0 < i then [Orig] else []) @ map Piece ?ms',
        hs_next_id := (if Suc i < length ?cs then Suc (hs_next_id s) else hs_next_id s)\<rparr>"
      using hoistImage_step_marked [OF ilt True, of nm at] tl_out by simp
    have child_in: "?cs ! i \<in> set cs0" using shape(4) ilt
      by (metis nth_mem set_append UnI1)
    with wf have child_np: "\<not> element_piece oid f0 (?cs ! i)"
      by (auto simp: element_piece_def)
    have clone_p: "element_piece oid f0 ?clone" using f0 by (simp add: element_piece_def)
    have flat: "flatten_output oid f0 ?ms' = ?cs ! i # drop (Suc i) ?cs @ flatten_output oid f0 ms"
      using child_np clone_p ilt
      by (auto simp: flatten_output_Cons flatten_output_append)
    have "take i ?cs @ ?cs ! i # drop (Suc i) ?cs = ?cs"
      using ilt by (rule id_take_nth_drop [symmetric])
    then have "take i ?cs @ ?cs ! i # drop (Suc i) ?cs @ flatten_output oid f0 ms = cs0"
      using shape(4) by (metis append.assoc append_Cons)
    then have whole: "take i ?cs @ flatten_output oid f0 ?ms' = cs0"
      using flat by simp
    have good: "no_empty_piece oid f0 ?ms'"
      using shape(5) child_np by (auto simp: no_empty_piece_def)
    have flag': "\<forall>j. i \<le> j \<and> j < length cs0 \<and> node_id (cs0 ! j) \<notin> M \<longrightarrow> hs_hasNonAutohoistedChildren s"
    proof (intro allI impI)
      fix j assume j: "i \<le> j \<and> j < length cs0 \<and> node_id (cs0 ! j) \<notin> M"
      with True nth0 have "j \<noteq> i" by auto
      with j flag show "hs_hasNonAutohoistedChildren s" by auto
    qed
    show ?thesis
    proof (cases "0 < i")
      case True
      then have "hs_newOutput (hoistImage_step M nm at i s) = Orig # map Piece ?ms'"
        unfolding st by simp
      moreover have "take i ?cs \<noteq> []" using True ilt by auto
      ultimately show ?thesis
        using whole good flag' f0 ilt unfolding hoist_inv_def st
        apply (intro conjI)
          apply (simp; fail)
         apply (simp; fail)
        apply (rule disjI2, rule disjI1, rule exI [of _ ?ms'])
        apply (simp add: min_def)
        apply arith
        done
    next
      case False
      then have i0: "i = 0" by simp
      have "hs_newOutput (hoistImage_step M nm at i s) = map Piece ?ms'"
        unfolding st using i0 by simp
      then show ?thesis
        using whole good flag' f0 ilt i0 unfolding hoist_inv_def st
        apply (intro conjI)
          apply (simp; fail)
         apply (simp; fail)
        apply (rule disjI2, rule disjI2, rule exI [of _ ?ms'])
        apply simp
        done
    qed
  qed
qed

lemma hoist_inv_loop:
  assumes wf: "\<forall>c \<in> set cs0. node_id c \<noteq> oid \<and> node_id c < f0"
  shows "hoist_inv M oid f0 cs0 k s \<Longrightarrow> hoist_inv M oid f0 cs0 0 (hoistImage_loop M nm at k s)"
proof (induction k arbitrary: s)
  case 0
  then show ?case by simp
next
  case (Suc k)
  from hoist_inv_step [OF Suc.prems wf]
  have "hoist_inv M oid f0 cs0 k (hoistImage_step M nm at k s)" .
  from Suc.IH [OF this] show ?case by simp
qed


lemma resolve_Piece [simp]: "map (resolve orig \<circ> Piece) ms = ms"
  by (induction ms) auto


text \<open>
  C10. The repair converter conserves children. For an element result whose children
  are objects other than the element itself, with identifiers in use (below the next
  unused one): if nothing is marked the result stays the element with its children;
  otherwise the fragment's entries, flattened (a hoisted node itself, the children of
  the original element or of a clone), are exactly the original children in their
  original order, and when some child is unmarked no element piece of the output is
  empty.
\<close>

theorem hoistImage_conserves_children:
  assumes out: "d_output data = Node (ModelElement oid nm at cs)"
    and wf: "\<forall>c \<in> set cs. node_id c \<noteq> oid \<and> node_id c < next_id st"
  shows "case d_output (fst (hoistImage data st)) of
           Null \<Rightarrow> False
         | Node m \<Rightarrow> m = ModelElement oid nm at cs
         | Fragment _ ps \<Rightarrow>
             flatten_output oid (next_id st) ps = cs \<and>
             ((\<exists>c \<in> set cs. node_id c \<notin> autohoistedImages st) \<longrightarrow>
                no_empty_piece oid (next_id st) ps)"
proof -
  let ?M = "autohoistedImages st"
  let ?f0 = "next_id st"
  let ?init = "\<lparr>hs_children = cs, hs_newOutput = [],
              hs_hasNonAutohoistedChildren = False, hs_next_id = next_id st\<rparr>"
  let ?s = "hoistImage_loop ?M nm at (length cs) ?init"
  let ?orig = "ModelElement oid nm at (hs_children ?s)"
  have "hoist_inv ?M oid ?f0 cs (length cs) ?init"
    by (simp add: hoist_inv_def)
  from hoist_inv_loop [OF wf this]
  have inv: "hoist_inv ?M oid ?f0 cs 0 ?s" .
  then have flag: "\<forall>j. j < length cs \<and> node_id (cs ! j) \<notin> ?M \<longrightarrow> hs_hasNonAutohoistedChildren ?s"
    by (simp add: hoist_inv_def)
  have orig_piece: "element_piece oid ?f0 ?orig" by (simp add: element_piece_def)
  from inv consider
      (a) "hs_newOutput ?s = []" "hs_children ?s = cs"
    | (b) ms where "hs_newOutput ?s = Orig # map Piece ms" "hs_children ?s \<noteq> []"
        "hs_children ?s @ flatten_output oid ?f0 ms = cs" "no_empty_piece oid ?f0 ms"
        "\<forall>j. j < length (hs_children ?s) \<longrightarrow> node_id (cs ! j) \<notin> ?M"
    | (c) ms where "hs_newOutput ?s = map Piece ms" "ms \<noteq> []" "hs_children ?s = []"
        "flatten_output oid ?f0 ms = cs" "no_empty_piece oid ?f0 ms"
    unfolding hoist_inv_def by auto
  then show ?thesis
  proof cases
    case a
    then show ?thesis using out by (simp add: hoistImage_def Let_def)
  next
    case (b ms)
    from b(2,3) have "0 < length cs" by auto
    moreover from b(2,5) have "node_id (cs ! 0) \<notin> ?M" by auto
    ultimately have has: "hs_hasNonAutohoistedChildren ?s" using flag by blast
    have "d_output (fst (hoistImage data st)) =
        Fragment (hs_next_id ?s) (?orig # ms)"
      using out b(1) has by (simp add: hoistImage_def Let_def)
    moreover have "flatten_output oid ?f0 (?orig # ms) = cs"
      using orig_piece b(3) by (simp add: flatten_output_Cons)
    moreover have "no_empty_piece oid ?f0 (?orig # ms)"
      using b(2,4) by (simp add: no_empty_piece_def)
    ultimately show ?thesis by simp
  next
    case (c ms)
    show ?thesis
    proof (cases "hs_hasNonAutohoistedChildren ?s")
      case True
      have "d_output (fst (hoistImage data st)) = Fragment (hs_next_id ?s) ms"
        using out c(1,2) True by (simp add: hoistImage_def Let_def)
      with c(4,5) show ?thesis by simp
    next
      case False
      have "d_output (fst (hoistImage data st)) = Fragment (hs_next_id ?s) (ms @ [?orig])"
        using out c(1,2) False by (simp add: hoistImage_def Let_def)
      moreover have "flatten_output oid ?f0 (ms @ [?orig]) = cs"
        using orig_piece c(3,4) by (simp add: flatten_output_append flatten_output_Cons)
      moreover have "\<not> (\<exists>c \<in> set cs. node_id c \<notin> ?M)"
      proof
        assume "\<exists>c \<in> set cs. node_id c \<notin> ?M"
        then obtain j where "j < length cs" "node_id (cs ! j) \<notin> ?M"
          by (auto simp: in_set_conv_nth)
        with flag False show False by blast
      qed
      ultimately show ?thesis by simp
    qed
  qed
qed

theorem hoistImage_conserves_children_witness:
  "flatten_output 50 100
     [ModelElement 2 ''image'' [] [], ModelElement 100 ''paragraph'' [] [ModelText 1 [] ''a''],
      ModelElement 5 ''image'' [] []]
    = [ModelElement 2 ''image'' [] [], ModelText 1 [] ''a'', ModelElement 5 ''image'' [] []]
   \<and> no_empty_piece 50 100
     [ModelElement 2 ''image'' [] [], ModelElement 100 ''paragraph'' [] [ModelText 1 [] ''a''],
      ModelElement 5 ''image'' [] []]
   \<and> d_output (fst (hoistImage
        (example_data (Node (ModelElement 50 ''paragraph'' []
           [ModelElement 2 ''image'' [] [], ModelText 1 [] ''a'', ModelElement 5 ''image'' [] []])))
        (example_state {2, 5})))
      = Fragment 101
          [ModelElement 2 ''image'' [] [], ModelElement 100 ''paragraph'' [] [ModelText 1 [] ''a''],
           ModelElement 5 ''image'' [] []]"
proof -
  let ?cs = "[ModelElement 2 ''image'' [] [], ModelText 1 [] ''a'', ModelElement 5 ''image'' [] []]"
  let ?data = "example_data (Node (ModelElement 50 ''paragraph'' [] ?cs))"
  let ?st = "example_state {2, 5}"
  have out: "d_output ?data = Node (ModelElement 50 ''paragraph'' [] ?cs)"
    by (simp add: example_data_def)
  have wf: "\<forall>c \<in> set ?cs. node_id c \<noteq> 50 \<and> node_id c < next_id ?st"
    by (simp add: example_state_def)
  have run: "d_output (fst (hoistImage ?data ?st)) =
      Fragment 101
          [ModelElement 2 ''image'' [] [], ModelElement 100 ''paragraph'' [] [ModelText 1 [] ''a''],
           ModelElement 5 ''image'' [] []]"
    by (simp add: hoistImage_def hoistImage_step_def Let_def example_data_def example_state_def)
  have unmarked: "\<exists>c \<in> set ?cs. node_id c \<notin> autohoistedImages ?st"
    by (simp add: example_state_def)
  from hoistImage_conserves_children [OF out wf] run unmarked
  show ?thesis by (simp add: example_state_def)
qed

section \<open>Unfolding the examples\<close>

lemmas example_defs = example_input_def example_pass_def example_schema_def example_figure_def
  example_img_def example_caption_def example_view_state_def example_state_def example_data_def

lemmas host_defs = host_api_def host_convertItem_def consumable_test_def consumable_consume_def
  registeredImgConversion_def viewImageToElement_def viewImageAltAttribute_def regex_dot_def

lemmas view_defs = insertImageToView_def modelToViewAttributeConverter_def model_consume_def
  part_def registered_keys_def createImageViewElement_def

section \<open>Properties of the writer's insertion\<close>


lemma writer_insert_at_start_Nil [simp]: "writer_insert_at_start cs [] f = (cs, f)"
  by (simp add: writer_insert_at_start_def mergeNodesAtIndex_def)






section \<open>Properties of the figure converter and of the round trip\<close>

text \<open>
  C7. A figure whose only child is an \<open>img\<close> without \<open>src\<close>: the converter returns
  with the data (so the output) and the whole state of the pass (so every consumable
  marker) as they were.
\<close>

theorem viewFigureToModel_declines_without_src:
  assumes "getChildren (d_input data) = [ViewElement i ''img'' at cl cs]"
    and "map_of at ''src'' = None"
  shows "viewFigureToModel api data st = Inr (data, st)"
  using assms by (simp add: viewFigureToModel_def hasAttribute_def)

theorem viewFigureToModel_declines_without_src_witness:
  "viewFigureToModel (host_api example_schema)
     (example_input (example_figure [(''alt'', ''a'')] [])) (example_pass [CtxName ''$root''])
   = Inr (example_input (example_figure [(''alt'', ''a'')] []), example_pass [CtxName ''$root''])
   \<and> d_output (example_input (example_figure [(''alt'', ''a'')] [])) = Null
   \<and> consumable_test (example_pass [CtxName ''$root'']) (example_figure [(''alt'', ''a'')] [])
        [CName, CClass ''image'']
   \<and> consumable_test (example_pass [CtxName ''$root'']) (example_img [(''alt'', ''a'')]) [CName]
   \<and> check example_schema
        \<lparr>q_name = ''image'', q_attributes = AttrName ''src'', q_inside = [CtxName ''$root'']\<rparr>"
  using viewFigureToModel_declines_without_src
    [of "example_input (example_figure [(''alt'', ''a'')] [])" 2 "[(''alt'', ''a'')]" "[]" "[]"
        "host_api example_schema" "example_pass [CtxName ''$root'']"]
  by (simp add: example_defs consumable_test_def)




text \<open>
  C4 does not hold for every \<open>alt\<close>. An \<open>img\<close> with \<open>src = "x"\<close> and an empty
  \<open>alt\<close>: the pattern \<open>/./\<close> of the
  \<open>alt\<close> converter does not match the empty string, the model image has no \<open>alt\<close>,
  and the view that comes back has an \<open>img\<close> without the \<open>alt\<close> attribute the
  original had.
\<close>

theorem roundtrip_drops_empty_alt:
  "roundtrip (host_api example_schema)
     (example_input (example_figure [(''src'', ''x''), (''alt'', '''')] []))
     (example_pass [CtxName ''$root'']) example_view_state
   = Some (ViewElement 1 ''figure'' [] [''image''] [ViewElement 0 ''img'' [(''src'', ''x'')] [] []])
   \<and> getAttribute (example_img [(''src'', ''x''), (''alt'', '''')]) ''alt'' = Some ''''
   \<and> getAttribute (ViewElement 0 ''img'' [(''src'', ''x'')] [] []) ''alt'' = None"
  by (simp add: roundtrip_def viewFigureToModel_def hasAttribute_def array_push_def array_pop_def
        Let_def example_defs host_defs view_defs)

text \<open>
  C4, as the code has it. For \<open>src\<close> and \<open>alt\<close> that both match the registered
  pattern \<open>/./\<close>: a figure of class \<open>image\<close> whose one child is an \<open>img\<close> with these
  attributes, unconsumed and allowed by the schema, where the host converts the \<open>img\<close>
  through the registered converters and finds nothing more to convert among the
  children, goes to the model and back to a figure of class \<open>image\<close> holding an
  \<open>img\<close> with exactly the attributes \<open>src\<close> and \<open>alt\<close>, with the same values.
\<close>

theorem roundtrip_src_alt:
  assumes src: "regex_dot src" and alt: "regex_dot alt"
    and attrs: "map_of iat ''src'' = Some src" "map_of iat ''alt'' = Some alt"
    and input: "d_input data = ViewElement fi ''figure'' fat fcl [ViewElement ii ''img'' iat icl ics]"
    and fig: "consumable_test st (d_input data) [CName, CClass ''image'']"
    and sch: "check (api_schema api)
           \<lparr>q_name = ''image'', q_attributes = AttrName ''src'', q_inside = arrays st (d_context data)\<rparr>"
    and img: "consumable_test st (ViewElement ii ''img'' iat icl ics) [CName]"
    and item: "convertItem api (ViewElement ii ''img'' iat icl ics) data st
           = (registeredImgConversion k (ViewElement ii ''img'' iat icl ics), st1)"
    and children: "convertChildren api (d_input data) data
           (array_push (d_context data)
              (CtxItem (registeredImgConversion k (ViewElement ii ''img'' iat icl ics)))
              st1) = ([], st3)"
  shows "roundtrip api data st vst =
     Some (ViewElement (Suc (next_view_id vst)) ''figure'' [] [''image'']
            [ViewElement (next_view_id vst) ''img'' [(''src'', src), (''alt'', alt)] [] []])"
proof -
  let ?img = "ViewElement ii ''img'' iat icl ics"
  have reg: "registeredImgConversion k ?img =
      Node (ModelElement k ''image'' [(''src'', src), (''alt'', alt)] [])"
    using src alt attrs
    by (simp add: registeredImgConversion_def viewImageToElement_def viewImageAltAttribute_def)
  have v2m: "viewFigureToModel api data st =
      Inr (data\<lparr>d_output := Node (ModelElement k ''image'' [(''src'', src), (''alt'', alt)] [])\<rparr>,
           (array_pop (d_context data) st3)\<lparr>next_id := next_id st3\<rparr>)"
    using input fig sch img item children reg attrs
    by (simp add: viewFigureToModel_def hasAttribute_def array_pop_def)
  have m2v: "\<exists>vst'. insertImageToView (ModelElement k ''image'' [(''src'', src), (''alt'', alt)] []) vst
      = Inr vst' \<and> mapper vst' k =
         Some (ViewElement (Suc (next_view_id vst)) ''figure'' [] [''image'']
            [ViewElement (next_view_id vst) ''img'' [(''src'', src), (''alt'', alt)] [] []])"
    by (simp add: view_defs Let_def)
  from v2m m2v show ?thesis
    by (auto simp: roundtrip_def)
qed

theorem roundtrip_src_alt_witness:
  "regex_dot ''x.png'' \<and> regex_dot ''A picture'' \<and>
   roundtrip (host_api example_schema)
     (example_input (example_figure [(''alt'', ''A picture''), (''src'', ''x.png'')] []))
     (example_pass [CtxName ''$root'']) example_view_state
   = Some (ViewElement 1 ''figure'' [] [''image'']
            [ViewElement 0 ''img'' [(''src'', ''x.png''), (''alt'', ''A picture'')] [] []])"
proof -
  let ?iat = "[(''alt'', ''A picture''), (''src'', ''x.png'')]"
  let ?img = "ViewElement 2 ''img'' ?iat [] []"
  let ?data = "example_input (example_figure ?iat [])"
  let ?st = "example_pass [CtxName ''$root'']"
  let ?api = "host_api example_schema"
  let ?st1 = "snd (host_convertItem ?img ?data ?st)"
  let ?st2 = "array_push 0 (CtxItem (registeredImgConversion 100 ?img)) ?st1"
  have src: "regex_dot ''x.png''" and alt: "regex_dot ''A picture''"
    by (simp_all add: regex_dot_def)
  have attrs: "map_of ?iat ''src'' = Some ''x.png''" "map_of ?iat ''alt'' = Some ''A picture''"
    by simp_all
  have input: "d_input ?data = ViewElement 1 ''figure'' [] [''image''] [?img]"
    by (simp add: example_defs)
  have fig: "consumable_test ?st (d_input ?data) [CName, CClass ''image'']"
    by (simp add: example_defs consumable_test_def)
  have sch: "check (api_schema ?api)
      \<lparr>q_name = ''image'', q_attributes = AttrName ''src'', q_inside = arrays ?st (d_context ?data)\<rparr>"
    by (simp add: example_defs host_api_def)
  have img: "consumable_test ?st ?img [CName]"
    by (simp add: example_defs consumable_test_def)
  have item: "convertItem ?api ?img ?data ?st = (registeredImgConversion 100 ?img, ?st1)"
    by (simp add: example_defs host_defs)
  have children: "convertChildren ?api (d_input ?data) ?data
      (array_push (d_context ?data) (CtxItem (registeredImgConversion 100 ?img)) ?st1)
      = ([], snd (host_convertList [?img] ?data ?st2))"
    by (simp add: example_defs host_defs array_push_def)
  from roundtrip_src_alt [OF src alt attrs input fig sch img item children, of example_view_state]
    src alt
  show ?thesis by (simp add: example_defs)
qed

section \<open>Properties of the attribute converter\<close>



section \<open>The set of marked objects\<close>

text \<open>
  C8 does not hold: entries are not cleared. An \<open>img\<close> in a paragraph, where the
  schema allows an image in the root only: the
  detection converter converts it and adds the new image (object 100) to the set; the
  repair converter, run on the paragraph that holds the image, hoists it, and the set
  still holds 100 afterwards.
\<close>

theorem autohoist_entry_survives_repair:
  "autohoistedImages (example_pass [CtxName ''$root'', CtxName ''paragraph'']) = {}
   \<and> \<not> isl (convertHoistableImage example_schema (host_api example_schema)
          (example_input (example_img [(''src'', ''x'')]))
          (example_pass [CtxName ''$root'', CtxName ''paragraph'']))
   \<and> d_output (fst (projr (convertHoistableImage example_schema (host_api example_schema)
          (example_input (example_img [(''src'', ''x'')]))
          (example_pass [CtxName ''$root'', CtxName ''paragraph''])))) =
       Node (ModelElement 100 ''image'' [(''src'', ''x'')] [])
   \<and> autohoistedImages (snd (projr (convertHoistableImage example_schema (host_api example_schema)
          (example_input (example_img [(''src'', ''x'')]))
          (example_pass [CtxName ''$root'', CtxName ''paragraph''])))) = {100}
   \<and> d_output (fst (hoistImage
          (example_data (Node (ModelElement 50 ''paragraph'' []
             [ModelText 1 [] ''a'', ModelElement 100 ''image'' [(''src'', ''x'')] []])))
          (snd (projr (convertHoistableImage example_schema (host_api example_schema)
             (example_input (example_img [(''src'', ''x'')]))
             (example_pass [CtxName ''$root'', CtxName ''paragraph''])))))) =
       Fragment 101 [ModelElement 50 ''paragraph'' [] [ModelText 1 [] ''a''],
                     ModelElement 100 ''image'' [(''src'', ''x'')] []]
   \<and> autohoistedImages (snd (hoistImage
          (example_data (Node (ModelElement 50 ''paragraph'' []
             [ModelText 1 [] ''a'', ModelElement 100 ''image'' [(''src'', ''x'')] []])))
          (snd (projr (convertHoistableImage example_schema (host_api example_schema)
             (example_input (example_img [(''src'', ''x'')]))
             (example_pass [CtxName ''$root'', CtxName ''paragraph''])))))) = {100}"
proof -
  have run: "convertHoistableImage example_schema (host_api example_schema)
          (example_input (example_img [(''src'', ''x'')]))
          (example_pass [CtxName ''$root'', CtxName ''paragraph'']) =
     Inr ((example_input (example_img [(''src'', ''x'')]))
            \<lparr>d_output := Node (ModelElement 100 ''image'' [(''src'', ''x'')] [])\<rparr>,
          \<lparr>arrays = (\<lambda>_. [])(0 := [CtxName ''$root'', CtxName ''paragraph''], 1 := [CtxName ''$root'']),
           next_ref = 2,
           consumable = {(1, CName), (1, CClass ''image''), (2, CAttribute ''alt''), (3, CName),
                         (4, CName)},
           autohoistedImages = {100}, next_id = 101\<rparr>)"
    by (simp add: convertHoistableImage_def findAllowedContext_def array_slice_def
          findAllowedContext_loop.simps schemaQuery_def array_pop_def limits_has_def Let_def
          example_defs host_defs insert_commute)
      (auto)
  show ?thesis
    unfolding run
    by (simp add: hoistImage_def hoistImage_step_def Let_def example_defs)
qed

text \<open>The search and the small host do not touch the set of marked objects.\<close>

lemma findAllowedContext_loop_marks:
  "findAllowedContext_loop sch md c (h :: conv_state) = (r, h') \<Longrightarrow>
     autohoistedImages h' = autohoistedImages h"
proof (induction sch md c h rule: findAllowedContext_loop.induct)
  case (1 sch md c h)
  show ?case
  proof (cases "arrays h c \<noteq> [] \<and> \<not> check sch (schemaQuery md (arrays h c))")
    case False
    with "1.prems" show ?thesis
      by (simp add: findAllowedContext_loop.simps [of sch md c h])
  next
    case True
    show ?thesis
    proof (cases "parentName (last (arrays h c))")
      case (Inl e)
      with True "1.prems" show ?thesis
        by (auto simp: findAllowedContext_loop.simps [of sch md c h] array_pop_def)
    next
      case (Inr pn)
      show ?thesis
      proof (cases "limits_has sch pn")
        case lim: True
        with True Inr "1.prems" show ?thesis
          by (auto simp: findAllowedContext_loop.simps [of sch md c h] array_pop_def)
      next
        case nolim: False
        with True Inr "1.prems"
        have rec: "findAllowedContext_loop sch md c (array_pop c h) = (r, h')"
          by (simp add: findAllowedContext_loop.simps [of sch md c h])
        from "1.IH" [OF True refl refl Inr nolim rec]
        show ?thesis by (simp add: array_pop_def)
      qed
    qed
  qed
qed

lemma findAllowedContext_marks:
  assumes "findAllowedContext md ctx sch (h :: conv_state) = (r, h')"
  shows "autohoistedImages h' = autohoistedImages h"
proof -
  from assms
  have "findAllowedContext_loop sch md (fst (array_slice ctx h)) (snd (array_slice ctx h)) = (r, h')"
    by (simp add: findAllowedContext_def split_beta)
  from findAllowedContext_loop_marks [OF this] show ?thesis
    by (simp add: array_slice_def)
qed

lemma host_convertItem_marks:
  "autohoistedImages (snd (host_convertItem v d s)) = autohoistedImages s"
  by (cases v) (simp_all add: host_convertItem_def consumable_consume_def)

text \<open>
  C8, as the code has it. The repair converter only reads the set of marked objects:
  after it the set is exactly what it was. The detection converter removes nothing:
  where the nested conversion it calls removes no entry, every entry that was in the set
  before is in it when the converter returns; where the nested conversion leaves the
  set alone, the set afterwards is the old one, or the old one with the new output
  added. When the converter returns after finding an allowed context for an unconsumed
  image, that output is in the set. The figure converter removes nothing either.
\<close>

theorem autohoistedImages_added_never_removed:
  "autohoistedImages (snd (hoistImage rdata rst)) = autohoistedImages rst
   \<and>
   ((\<forall>v d s. autohoistedImages s \<subseteq> autohoistedImages (snd (convertItem api v d s))) \<and>
    convertHoistableImage sch api data st = Inr (data', st') \<longrightarrow>
      autohoistedImages st \<subseteq> autohoistedImages st')
   \<and>
   ((\<forall>v d s. autohoistedImages (snd (convertItem api v d s)) = autohoistedImages s) \<and>
    convertHoistableImage sch api data st = Inr (data', st') \<longrightarrow>
      (autohoistedImages st' = autohoistedImages st \<and> d_output data' = d_output data) \<or>
      (\<exists>i. result_id (d_output data') = Some i \<and>
           autohoistedImages st' = insert i (autohoistedImages st)))
   \<and>
   (convertHoistableImage sch api data st = Inr (data', st') \<and>
    consumable_test st (d_input data) [CName, CAttribute ''src''] \<and>
    fst (findAllowedContext \<lparr>md_name = ''image'', md_attributes = [''src'']\<rparr>
           (d_context data) sch st) = Inr (Some c) \<longrightarrow>
      (\<exists>i. result_id (d_output data') = Some i \<and> i \<in> autohoistedImages st'))
   \<and>
   ((\<forall>v d s. autohoistedImages s \<subseteq> autohoistedImages (snd (convertItem fapi v d s))) \<and>
    (\<forall>v d s. autohoistedImages s \<subseteq> autohoistedImages (snd (convertChildren fapi v d s))) \<and>
    viewFigureToModel fapi fdata fs = Inr (fdata', fs') \<longrightarrow>
      autohoistedImages fs \<subseteq> autohoistedImages fs')"
proof (intro conjI impI)
  let ?md = "\<lparr>md_name = ''image'', md_attributes = [''src'']\<rparr>"
  obtain r h1 where f: "findAllowedContext ?md (d_context data) sch st = (r, h1)"
    by (cases "findAllowedContext ?md (d_context data) sch st") auto
  from findAllowedContext_marks [OF f]
  have h1: "autohoistedImages h1 = autohoistedImages st" .
  show "autohoistedImages (snd (hoistImage rdata rst)) = autohoistedImages rst"
    by (simp add: hoistImage_def Let_def split: conv_result.splits model_node.splits)
  {
    assume a: "(\<forall>v d s. autohoistedImages s \<subseteq> autohoistedImages (snd (convertItem api v d s))) \<and>
      convertHoistableImage sch api data st = Inr (data', st')"
    then have "\<And>v d. autohoistedImages h1 \<subseteq> autohoistedImages (snd (convertItem api v d h1))"
      by blast
    with h1 have frame:
      "\<And>v d. autohoistedImages st \<subseteq> autohoistedImages (snd (convertItem api v d h1))"
      by simp
    from a f h1 show "autohoistedImages st \<subseteq> autohoistedImages st'"
      by (auto simp: convertHoistableImage_def Let_def split_beta
          split: if_splits option.splits sum.splits dest: subsetD [OF frame])
  }
  {
    assume a: "(\<forall>v d s. autohoistedImages (snd (convertItem api v d s)) = autohoistedImages s) \<and>
      convertHoistableImage sch api data st = Inr (data', st')"
    then have "\<And>v d. autohoistedImages (snd (convertItem api v d h1)) = autohoistedImages h1"
      by blast
    with h1 have frame:
      "\<And>v d. autohoistedImages (snd (convertItem api v d h1)) = autohoistedImages st"
      by simp
    from a f h1 frame
    show "(autohoistedImages st' = autohoistedImages st \<and> d_output data' = d_output data) \<or>
      (\<exists>i. result_id (d_output data') = Some i \<and>
           autohoistedImages st' = insert i (autohoistedImages st))"
      by (auto simp: convertHoistableImage_def Let_def split_beta
          split: if_splits option.splits sum.splits)
  }
  {
    assume a: "convertHoistableImage sch api data st = Inr (data', st') \<and>
      consumable_test st (d_input data) [CName, CAttribute ''src''] \<and>
      fst (findAllowedContext ?md (d_context data) sch st) = Inr (Some c)"
    with f have "r = Inr (Some c)" by simp
    with a f show "\<exists>i. result_id (d_output data') = Some i \<and> i \<in> autohoistedImages st'"
      by (auto simp: convertHoistableImage_def Let_def split_beta split: option.splits)
  }
  {
    assume a: "(\<forall>v d s. autohoistedImages s \<subseteq> autohoistedImages (snd (convertItem fapi v d s))) \<and>
      (\<forall>v d s. autohoistedImages s \<subseteq> autohoistedImages (snd (convertChildren fapi v d s))) \<and>
      viewFigureToModel fapi fdata fs = Inr (fdata', fs')"
    then have ci: "\<And>v d s. autohoistedImages s \<subseteq> autohoistedImages (snd (convertItem fapi v d s))"
      and cc: "\<And>v d s. autohoistedImages s \<subseteq> autohoistedImages (snd (convertChildren fapi v d s))"
      and run: "viewFigureToModel fapi fdata fs = Inr (fdata', fs')" by auto
    have two: "\<And>v1 d1 v2 d2 e. autohoistedImages fs \<subseteq>
        autohoistedImages (snd (convertChildren fapi v2 d2
           (array_push (d_context fdata) e (snd (convertItem fapi v1 d1 fs)))))"
    proof -
      fix v1 d1 v2 d2 e
      have "autohoistedImages fs \<subseteq> autohoistedImages (snd (convertItem fapi v1 d1 fs))"
        by (rule ci)
      also have "\<dots> = autohoistedImages (array_push (d_context fdata) e (snd (convertItem fapi v1 d1 fs)))"
        by (simp add: array_push_def)
      also have "\<dots> \<subseteq> autohoistedImages (snd (convertChildren fapi v2 d2
           (array_push (d_context fdata) e (snd (convertItem fapi v1 d1 fs)))))"
        by (rule cc)
      finally show "autohoistedImages fs \<subseteq>
        autohoistedImages (snd (convertChildren fapi v2 d2
           (array_push (d_context fdata) e (snd (convertItem fapi v1 d1 fs)))))" .
    qed
    from run show "autohoistedImages fs \<subseteq> autohoistedImages fs'"
      by (auto simp: viewFigureToModel_def Let_def split_beta array_pop_def
          split: if_splits option.splits sum.splits dest: subsetD [OF two])
  }
qed

theorem autohoistedImages_added_never_removed_witness:
  "autohoistedImages (snd (hoistImage
      (example_data (Node (ModelElement 50 ''paragraph'' []
         [ModelText 1 [] ''a'', ModelElement 7 ''image'' [(''src'', ''x'')] []])))
      (example_state {7}))) = {7}
   \<and> consumable_test ((example_pass [CtxName ''$root'', CtxName ''paragraph''])
          \<lparr>autohoistedImages := {7}\<rparr>)
        (example_img [(''src'', ''x'')]) [CName, CAttribute ''src'']
   \<and> fst (findAllowedContext \<lparr>md_name = ''image'', md_attributes = [''src'']\<rparr> 0 example_schema
        ((example_pass [CtxName ''$root'', CtxName ''paragraph''])
          \<lparr>autohoistedImages := {7}\<rparr>)) = Inr (Some 1)
   \<and> \<not> isl (convertHoistableImage example_schema
        (host_api example_schema) (example_input (example_img [(''src'', ''x'')]))
        ((example_pass [CtxName ''$root'', CtxName ''paragraph''])
          \<lparr>autohoistedImages := {7}\<rparr>))
   \<and> result_id (d_output (fst (projr (convertHoistableImage example_schema
        (host_api example_schema) (example_input (example_img [(''src'', ''x'')]))
        ((example_pass [CtxName ''$root'', CtxName ''paragraph''])
          \<lparr>autohoistedImages := {7}\<rparr>))))) = Some 100
   \<and> autohoistedImages (snd (projr (convertHoistableImage example_schema
        (host_api example_schema) (example_input (example_img [(''src'', ''x'')]))
        ((example_pass [CtxName ''$root'', CtxName ''paragraph''])
          \<lparr>autohoistedImages := {7}\<rparr>)))) = {7, 100}
   \<and> \<not> isl (viewFigureToModel (host_api example_schema)
        (example_input (example_figure [(''src'', ''x'')] [example_caption]))
        ((example_pass [CtxName ''$root''])\<lparr>autohoistedImages := {7}\<rparr>))
   \<and> 7 \<in> autohoistedImages (snd (projr (viewFigureToModel (host_api example_schema)
        (example_input (example_figure [(''src'', ''x'')] [example_caption]))
        ((example_pass [CtxName ''$root''])\<lparr>autohoistedImages := {7}\<rparr>))))"
proof -
  let ?rdata = "example_data (Node (ModelElement 50 ''paragraph'' []
         [ModelText 1 [] ''a'', ModelElement 7 ''image'' [(''src'', ''x'')] []]))"
  let ?data = "example_input (example_img [(''src'', ''x'')])"
  let ?st = "(example_pass [CtxName ''$root'', CtxName ''paragraph''])\<lparr>autohoistedImages := {7}\<rparr>"
  let ?api = "host_api example_schema"
  let ?run = "convertHoistableImage example_schema ?api ?data ?st"
  let ?fdata = "example_input (example_figure [(''src'', ''x'')] [example_caption])"
  let ?fst = "(example_pass [CtxName ''$root''])\<lparr>autohoistedImages := {7}\<rparr>"
  let ?frun = "viewFigureToModel ?api ?fdata ?fst"
  note inst = autohoistedImages_added_never_removed
    [of ?rdata "example_state {7}" ?api example_schema ?data ?st
        "fst (projr ?run)" "snd (projr ?run)" 1 ?api ?fdata ?fst
        "fst (projr ?frun)" "snd (projr ?frun)"]
  have sub: "\<forall>v d s. autohoistedImages s \<subseteq> autohoistedImages (snd (convertItem ?api v d s))"
    by (simp add: host_api_def host_convertItem_marks)
  have eq: "\<forall>v d s. autohoistedImages (snd (convertItem ?api v d s)) = autohoistedImages s"
    by (simp add: host_api_def host_convertItem_marks)
  have subc: "\<forall>v d s. autohoistedImages s \<subseteq> autohoistedImages (snd (convertChildren ?api v d s))"
  proof (intro allI)
    fix v d s
    have "\<And>vs s. autohoistedImages (snd (host_convertList vs d s)) = autohoistedImages s"
    proof -
      fix vs s show "autohoistedImages (snd (host_convertList vs d s)) = autohoistedImages s"
      proof (induction vs arbitrary: s)
        case Nil
        then show ?case by simp
      next
        case (Cons a vs)
        have "autohoistedImages (snd (host_convertList vs d (snd (host_convertItem a d s))))
            = autohoistedImages (snd (host_convertItem a d s))" by (rule Cons.IH)
        then show ?case by (simp add: split_beta host_convertItem_marks)
      qed
    qed
    then show "autohoistedImages s \<subseteq> autohoistedImages (snd (convertChildren ?api v d s))"
      by (simp add: host_api_def)
  qed
  have test: "consumable_test ?st (d_input ?data) [CName, CAttribute ''src'']"
    by (simp add: example_defs consumable_test_def)
  have found: "fst (findAllowedContext \<lparr>md_name = ''image'', md_attributes = [''src'']\<rparr>
      (d_context ?data) example_schema ?st) = Inr (Some 1)"
    by (simp add: findAllowedContext_def array_slice_def findAllowedContext_loop.simps
          schemaQuery_def array_pop_def limits_has_def example_defs)
  have run: "?run = Inr (fst (projr ?run), snd (projr ?run))"
    by (simp add: convertHoistableImage_def findAllowedContext_def array_slice_def
          findAllowedContext_loop.simps schemaQuery_def array_pop_def limits_has_def Let_def
          example_defs host_defs)
  have out: "result_id (d_output (fst (projr ?run))) = Some 100"
    by (simp add: convertHoistableImage_def findAllowedContext_def array_slice_def
          findAllowedContext_loop.simps schemaQuery_def array_pop_def limits_has_def Let_def
          example_defs host_defs)
  have was: "autohoistedImages ?st = {7}" "d_output ?data = Null" "autohoistedImages ?fst = {7}"
    by (simp_all add: example_defs)
  have frun: "?frun = Inr (fst (projr ?frun), snd (projr ?frun))"
    by (simp add: viewFigureToModel_def hasAttribute_def array_push_def array_pop_def Let_def
          example_defs host_defs writer_insert_at_start_def mergeNodesAtIndex_def)
  from inst [THEN conjunct1]
  have 1: "autohoistedImages (snd (hoistImage ?rdata (example_state {7}))) = {7}"
    by (simp add: example_defs)
  from inst [THEN conjunct2, THEN conjunct2, THEN conjunct1] eq run was out
  have 3: "autohoistedImages (snd (projr ?run)) = {7, 100}"
    by (auto simp del: insert_iff)
  from inst [THEN conjunct2, THEN conjunct1] sub run was
  have 2: "7 \<in> autohoistedImages (snd (projr ?run))" by blast
  from inst [THEN conjunct2, THEN conjunct2, THEN conjunct2, THEN conjunct1] run test found
  have 4: "\<exists>i. result_id (d_output (fst (projr ?run))) = Some i \<and>
      i \<in> autohoistedImages (snd (projr ?run))" by blast
  from inst [THEN conjunct2, THEN conjunct2, THEN conjunct2, THEN conjunct2] sub subc frun was
  have 5: "7 \<in> autohoistedImages (snd (projr ?frun))" by blast
  have "isl ?run = isl (Inr (fst (projr ?run), snd (projr ?run)) :: error + conv_data \<times> conv_state)"
    using run by simp
  then have r1: "\<not> isl ?run" by simp
  have "isl ?frun = isl (Inr (fst (projr ?frun), snd (projr ?frun)) :: error + conv_data \<times> conv_state)"
    using frun by simp
  then have r2: "\<not> isl ?frun" by simp
  from test have test': "consumable_test ?st (example_img [(''src'', ''x'')]) [CName, CAttribute ''src'']"
    by (simp add: example_defs)
  from found have found': "fst (findAllowedContext \<lparr>md_name = ''image'', md_attributes = [''src'']\<rparr>
      0 example_schema ?st) = Inr (Some 1)"
    by (simp add: example_defs)
  from 1 test' found' r1 out 3 r2 5 show ?thesis by blast
qed

section \<open>The context chain\<close>

text \<open>The small host leaves every context chain alone.\<close>

lemma host_convertItem_arrays:
  "arrays (snd (host_convertItem v d s)) r = arrays s r"
  by (cases v) (simp_all add: host_convertItem_def consumable_consume_def)

lemma host_convertList_arrays:
  "arrays (snd (host_convertList vs d s)) r = arrays s r"
proof (induction vs arbitrary: s)
  case Nil
  then show ?case by simp
next
  case (Cons v vs)
  have "arrays (snd (host_convertList vs d (snd (host_convertItem v d s)))) r
      = arrays (snd (host_convertItem v d s)) r"
    by (rule Cons.IH)
  then show ?case
    by (simp add: split_beta host_convertItem_arrays)
qed

text \<open>The search allocates one array and changes no other.\<close>

lemma findAllowedContext_frame:
  assumes "findAllowedContext md ctx sch h = (r, h')"
  shows "next_ref h' = Suc (next_ref h) \<and> (\<forall>a. a \<noteq> next_ref h \<longrightarrow> arrays h' a = arrays h a)
     \<and> (\<forall>c. r = Inr (Some c) \<longrightarrow> c = next_ref h)"
proof -
  let ?h1 = "snd (array_slice ctx h)"
  let ?c = "fst (array_slice ctx h)"
  from assms have run: "findAllowedContext_loop sch md ?c ?h1 = (r, h')"
    by (simp add: findAllowedContext_def split_beta)
  have c: "?c = next_ref h" by (simp add: array_slice_def)
  from findAllowedContext_loop_frame [OF run]
  have "next_ref h' = Suc (next_ref h)" "\<forall>a. a \<noteq> next_ref h \<longrightarrow> arrays h' a = arrays h a"
    by (auto simp: array_slice_def)
  moreover have "\<forall>c. r = Inr (Some c) \<longrightarrow> c = next_ref h"
  proof (intro allI impI)
    fix c' assume "r = Inr (Some c')"
    with run have "findAllowedContext_loop sch md ?c ?h1 = (Inr (Some c'), h')" by simp
    from findAllowedContext_loop_found [OF this] c show "c' = next_ref h" by simp
  qed
  ultimately show ?thesis by blast
qed

text \<open>
  C9. The search works on a copy: the array it was handed (an allocated reference) has
  the same contents afterwards, and a context it returns is not that array. The figure
  converter pushes on the handed array and pops again: provided the nested conversions
  it calls leave that array as they found it, the array has the same contents after the
  converter returns, and the data still refers to it.
\<close>

theorem context_chain_not_mutated:
  "(ctx < next_ref h \<and> findAllowedContext md ctx sch h = (r, h') \<longrightarrow>
      arrays h' ctx = arrays h ctx \<and> r \<noteq> Inr (Some ctx))
   \<and>
   ((\<forall>v d s. arrays (snd (convertItem api v d s)) (d_context data) = arrays s (d_context data)) \<and>
    (\<forall>v d s. arrays (snd (convertChildren api v d s)) (d_context data) = arrays s (d_context data)) \<and>
    viewFigureToModel api data st = Inr (data', st') \<longrightarrow>
      arrays st' (d_context data) = arrays st (d_context data) \<and>
      d_context data' = d_context data)"
proof (intro conjI impI)
  assume a: "ctx < next_ref h \<and> findAllowedContext md ctx sch h = (r, h')"
  from findAllowedContext_frame [of md ctx sch h r h'] a
  show "arrays h' ctx = arrays h ctx" "r \<noteq> Inr (Some ctx)" by auto
next
  assume a: "(\<forall>v d s. arrays (snd (convertItem api v d s)) (d_context data) = arrays s (d_context data)) \<and>
    (\<forall>v d s. arrays (snd (convertChildren api v d s)) (d_context data) = arrays s (d_context data)) \<and>
    viewFigureToModel api data st = Inr (data', st')"
  let ?r = "d_context data"
  from a have ci: "\<And>v d s. arrays (snd (convertItem api v d s)) ?r = arrays s ?r"
    and cc: "\<And>v d s. arrays (snd (convertChildren api v d s)) ?r = arrays s ?r"
    and run: "viewFigureToModel api data st = Inr (data', st')" by auto
  have pp: "\<And>v d1 d2 e s. arrays (array_pop ?r (snd (convertChildren api v d1
              (array_push ?r e (snd (convertItem api v d2 s)))))) ?r = arrays s ?r"
    by (simp add: array_pop_def array_push_def cc ci)
  from run show "arrays st' ?r = arrays st ?r" "d_context data' = ?r"
    by (auto simp: viewFigureToModel_def Let_def split_beta pp cc ci array_pop_def array_push_def
        split: if_splits option.splits sum.splits)
qed

theorem context_chain_not_mutated_witness:
  "arrays (snd (findAllowedContext \<lparr>md_name = ''image'', md_attributes = [''src'']\<rparr> 0
                  example_schema (example_pass [CtxName ''$root'', CtxName ''paragraph''])))
        0 = [CtxName ''$root'', CtxName ''paragraph'']
   \<and> fst (findAllowedContext \<lparr>md_name = ''image'', md_attributes = [''src'']\<rparr> 0
              example_schema (example_pass [CtxName ''$root'', CtxName ''paragraph'']))
        = Inr (Some 1)
   \<and> \<not> isl (viewFigureToModel (host_api example_schema)
          (example_input (example_figure [(''src'', ''x'')] [example_caption]))
          (example_pass [CtxName ''$root'']))
   \<and> arrays (snd (projr (viewFigureToModel (host_api example_schema)
          (example_input (example_figure [(''src'', ''x'')] [example_caption]))
          (example_pass [CtxName ''$root''])))) 0 = [CtxName ''$root'']"
proof -
  let ?md = "\<lparr>md_name = ''image'', md_attributes = [''src'']\<rparr>"
  let ?h = "example_pass [CtxName ''$root'', CtxName ''paragraph'']"
  let ?data = "example_input (example_figure [(''src'', ''x'')] [example_caption])"
  let ?st = "example_pass [CtxName ''$root'']"
  let ?api = "host_api example_schema"
  let ?run = "viewFigureToModel ?api ?data ?st"
  note inst = context_chain_not_mutated
    [of 0 ?h ?md example_schema "fst (findAllowedContext ?md 0 example_schema ?h)"
        "snd (findAllowedContext ?md 0 example_schema ?h)" ?api ?data ?st
        "fst (projr ?run)" "snd (projr ?run)"]
  have alloc: "0 < next_ref ?h" by (simp add: example_defs)
  have found: "fst (findAllowedContext ?md 0 example_schema ?h) = Inr (Some 1)"
    by (simp add: findAllowedContext_def array_slice_def findAllowedContext_loop.simps
          schemaQuery_def array_pop_def limits_has_def example_defs)
  from inst [THEN conjunct1] alloc
  have search: "arrays (snd (findAllowedContext ?md 0 example_schema ?h)) 0 = arrays ?h 0"
    by simp
  have ci: "\<forall>v d s. arrays (snd (convertItem ?api v d s)) (d_context ?data) = arrays s (d_context ?data)"
    by (simp add: host_api_def host_convertItem_arrays)
  have cc: "\<forall>v d s. arrays (snd (convertChildren ?api v d s)) (d_context ?data) = arrays s (d_context ?data)"
    by (simp add: host_api_def host_convertList_arrays)
  have run: "?run = Inr (fst (projr ?run), snd (projr ?run))"
    by (simp add: viewFigureToModel_def hasAttribute_def array_push_def array_pop_def Let_def
          example_defs host_defs writer_insert_at_start_def mergeNodesAtIndex_def)
  from inst [THEN conjunct2] ci cc run
  have "arrays (snd (projr ?run)) (d_context ?data) = arrays ?st (d_context ?data)"
    by blast
  then have figure: "arrays (snd (projr ?run)) 0 = [CtxName ''$root'']"
    by (simp add: example_defs)
  have "isl ?run = isl (Inr (fst (projr ?run), snd (projr ?run)) :: error + conv_data \<times> conv_state)"
    using run by simp
  then have returns: "\<not> isl ?run" by simp
  from search have chain: "arrays (snd (findAllowedContext ?md 0 example_schema ?h)) 0
      = [CtxName ''$root'', CtxName ''paragraph'']"
    by (simp add: example_defs)
  from chain found returns figure show ?thesis by blast
qed

end
